theory Spec2Isabelle
  imports
    Complex_Main
    "HOL-Library.Multiset"
    "HOL-Library.Option_ord"
    "HOL-Library.Product_Lexorder"
    "HOL-Library.AList"
begin

section \<open>Python values, exceptions and builtins used by analysis/analyze.py\<close>

text \<open>
  The script is Python 2 (\<^verbatim>\<open>#!/usr/bin/env python2\<close>, \<^verbatim>\<open>xrange\<close>,
  \<^verbatim>\<open>list.sort(cmp = ...)\<close>, \<^verbatim>\<open>except Exception, e\<close>) and has no
  \<^verbatim>\<open>from __future__ import division\<close>. Exceptions are values of the type \<open>exn\<close>; a
  method that can raise returns \<open>exn + 'a\<close>.
\<close>

datatype index_error =
    SetContainsOnly nat int  \<comment> \<open>the message built in \<^verbatim>\<open>__getitem__\<close>: length and requested key\<close>
  | ListIndexOutOfRange       \<comment> \<open>raised by the builtin list itself\<close>

datatype exn =
    AssertionError
  | IndexError index_error
  | TypeError
  | ValueError
  | KeyError int
  | ZeroDivisionError
  | MissingRmsd               \<comment> \<open>\<^verbatim>\<open>Exception('Error: Some of the loop predictions are missing RMSD values.')\<close>\<close>
  | SystemExit int

text \<open>
  Scores and RMSD values are Python numbers, \<^verbatim>\<open>int\<close> or \<^verbatim>\<open>float\<close>. The code only
  compares them, so a number is the rational it denotes, one of the two infinities, or NaN
  (\<^verbatim>\<open>float('nan')\<close> is a \<^verbatim>\<open>float\<close>). The comparisons are those of Python:
  \<^verbatim>\<open><\<close>, \<^verbatim>\<open><=\<close> and \<^verbatim>\<open>==\<close> with NaN on either side are \<^verbatim>\<open>False\<close>, also
  \<^verbatim>\<open>nan == nan\<close>, and \<^verbatim>\<open>!=\<close> is the negation of \<^verbatim>\<open>==\<close>. The quotient of two counts
  in \<^verbatim>\<open>fraction_with_rmsd_lt\<close> is the exact rational; its rounding to a float is not
  modelled.
\<close>

datatype pynum = Num rat | PosInf | NegInf | NaN

fun num_lt :: "pynum \<Rightarrow> pynum \<Rightarrow> bool" where
  "num_lt (Num a) (Num b) = (a < b)"
| "num_lt (Num a) PosInf = True"
| "num_lt NegInf (Num b) = True"
| "num_lt NegInf PosInf = True"
| "num_lt _ _ = False"

fun num_eq :: "pynum \<Rightarrow> pynum \<Rightarrow> bool" where
  "num_eq (Num a) (Num b) = (a = b)"
| "num_eq PosInf PosInf = True"
| "num_eq NegInf NegInf = True"
| "num_eq _ _ = False"

definition num_le :: "pynum \<Rightarrow> pynum \<Rightarrow> bool" where
  "num_le a b = (num_lt a b \<or> num_eq a b)"

text \<open>
  An RMSD can also be \<^verbatim>\<open>None\<close>. CPython 2 orders \<^verbatim>\<open>None\<close> below every number, NaN
  included: \<^verbatim>\<open>None < 1.0\<close> and \<^verbatim>\<open>None <= 1.0\<close> are \<^verbatim>\<open>True\<close>,
  \<^verbatim>\<open>1.0 < None\<close> is \<^verbatim>\<open>False\<close>, and \<^verbatim>\<open>None\<close> equals only itself.
\<close>

fun py_lt :: "pynum option \<Rightarrow> pynum option \<Rightarrow> bool" where
  "py_lt None None = False"
| "py_lt None (Some b) = True"
| "py_lt (Some a) None = False"
| "py_lt (Some a) (Some b) = num_lt a b"

fun py_le :: "pynum option \<Rightarrow> pynum option \<Rightarrow> bool" where
  "py_le None _ = True"
| "py_le (Some a) None = False"
| "py_le (Some a) (Some b) = num_le a b"

fun py_eq :: "pynum option \<Rightarrow> pynum option \<Rightarrow> bool" where
  "py_eq None None = True"
| "py_eq (Some a) (Some b) = num_eq a b"
| "py_eq _ _ = False"

section \<open>class LoopPrediction\<close>

text \<open>
  The ids are the integers that \<^verbatim>\<open>get_kic_run_details\<close> reads from the file names; the
  coordinate matrix is only stored.
\<close>

type_synonym xyz_matrix = "(rat \<times> rat \<times> rat) list"

record LoopPrediction =
  lp_id :: int
  score :: pynum
  pdb_id :: "string option"
  rmsd :: "pynum option"
  pdb_path :: "string option"
  pdb_loop_residue_matrix :: "xyz_matrix option"

text \<open>
  \<^verbatim>\<open>_check_types\<close>: the two \<^verbatim>\<open>isinstance\<close> assertions on \<^verbatim>\<open>score\<close> and
  \<^verbatim>\<open>rmsd\<close> hold by the types of the record (NaN and the infinities are instances of
  \<^verbatim>\<open>float\<close> and pass them); what remains is
  \<^verbatim>\<open>if self.pdb_path: assert(os.path.exists(self.pdb_path))\<close>. The file system is the
  parameter \<open>path_exists\<close>; the empty string is falsy, like \<^verbatim>\<open>None\<close>.
\<close>

definition check_types :: "(string \<Rightarrow> bool) \<Rightarrow> LoopPrediction \<Rightarrow> exn + unit" where
  "check_types path_exists self =
     (case pdb_path self of
        None \<Rightarrow> Inr ()
      | Some p \<Rightarrow> if p = [] then Inr ()
                  else if path_exists p then Inr () else Inl AssertionError)"

text \<open>\<^verbatim>\<open>LoopPrediction.__init__\<close>: store the fields, then \<^verbatim>\<open>_check_types\<close>.\<close>

definition LoopPrediction_init ::
  "(string \<Rightarrow> bool) \<Rightarrow> int \<Rightarrow> pynum \<Rightarrow> string option \<Rightarrow> pynum option \<Rightarrow> string option
     \<Rightarrow> xyz_matrix option \<Rightarrow> exn + LoopPrediction" where
  "LoopPrediction_init path_exists i sc pid r path mat =
     (let self = \<lparr>lp_id = i, score = sc, pdb_id = pid, rmsd = r, pdb_path = path,
                  pdb_loop_residue_matrix = mat\<rparr>
      in case check_types path_exists self of Inl e \<Rightarrow> Inl e | Inr _ \<Rightarrow> Inr self)"

text \<open>The static comparators \<^verbatim>\<open>LoopPrediction.sort_by_score\<close> and
  \<^verbatim>\<open>LoopPrediction.sort_by_rmsd\<close>; they return \<open>-1\<close> or \<open>1\<close>, never \<open>0\<close>.\<close>

definition LoopPrediction_sort_by_score ::
  "(string \<Rightarrow> bool) \<Rightarrow> LoopPrediction \<Rightarrow> LoopPrediction \<Rightarrow> exn + int" where
  "LoopPrediction_sort_by_score path_exists a b =
     (if lp_id a = lp_id b then Inl AssertionError
      else (case check_types path_exists a of Inl e \<Rightarrow> Inl e | Inr _ \<Rightarrow>
           (case check_types path_exists b of Inl e \<Rightarrow> Inl e | Inr _ \<Rightarrow>
           (if \<not> num_eq (score a) (score b)
            then (if num_lt (score a) (score b) then Inr (- 1) else Inr 1)
            else if \<not> py_eq (rmsd a) (rmsd b)
            then (if py_lt (rmsd a) (rmsd b) then Inr (- 1) else Inr 1)
            else (if lp_id a < lp_id b then Inr (- 1) else Inr 1)))))"

definition LoopPrediction_sort_by_rmsd ::
  "(string \<Rightarrow> bool) \<Rightarrow> LoopPrediction \<Rightarrow> LoopPrediction \<Rightarrow> exn + int" where
  "LoopPrediction_sort_by_rmsd path_exists a b =
     (if lp_id a = lp_id b then Inl AssertionError
      else (case check_types path_exists a of Inl e \<Rightarrow> Inl e | Inr _ \<Rightarrow>
           (case check_types path_exists b of Inl e \<Rightarrow> Inl e | Inr _ \<Rightarrow>
           (if \<not> py_eq (rmsd a) (rmsd b)
            then (if py_lt (rmsd a) (rmsd b) then Inr (- 1) else Inr 1)
            else if \<not> num_eq (score a) (score b)
            then (if num_lt (score a) (score b) then Inr (- 1) else Inr 1)
            else (if lp_id a < lp_id b then Inr (- 1) else Inr 1)))))"

text \<open>
  The tie-break chains as the specification words them: by-score is the lexicographic order
  of (score, deviation, id), by-deviation that of (deviation, score, id). A number other
  than NaN has a place in a linear order, \<open>num_key\<close>: minus infinity, the rationals, plus
  infinity; on options the library order puts \<open>None\<close> first, as \<open>py_lt\<close> does. NaN has
  no place in the order (its key is not used); \<open>not_nan\<close> says that neither the score nor
  the deviation of a record is NaN.
\<close>

fun num_key :: "pynum \<Rightarrow> int \<times> rat" where
  "num_key NegInf = (- 1, 0)"
| "num_key (Num a) = (0, a)"
| "num_key PosInf = (1, 0)"
| "num_key NaN = (2, 0)"

definition not_nan :: "LoopPrediction \<Rightarrow> bool" where
  "not_nan lp = (score lp \<noteq> NaN \<and> rmsd lp \<noteq> Some NaN)"

definition score_key :: "LoopPrediction \<Rightarrow> (int \<times> rat) \<times> (int \<times> rat) option \<times> int" where
  "score_key lp = (num_key (score lp), map_option num_key (rmsd lp), lp_id lp)"

definition rmsd_key :: "LoopPrediction \<Rightarrow> (int \<times> rat) option \<times> (int \<times> rat) \<times> int" where
  "rmsd_key lp = (map_option num_key (rmsd lp), num_key (score lp), lp_id lp)"

section \<open>The heap of LoopPrediction objects\<close>

text \<open>
  A \<^verbatim>\<open>LoopPredictionSet\<close> holds references to \<^verbatim>\<open>LoopPrediction\<close> objects, and a
  slice of a set shares them with its parent. A reference is an address in a heap of objects;
  \<^verbatim>\<open>LoopPrediction\<close> defines neither \<^verbatim>\<open>__eq__\<close> nor \<^verbatim>\<open>__cmp__\<close>, so
  \<^verbatim>\<open>==\<close> on two predictions is equality of references.
\<close>

type_synonym ref = nat

record heap =
  objects :: "ref \<Rightarrow> LoopPrediction"
  next_ref :: ref

definition heap_new :: "heap \<Rightarrow> LoopPrediction \<Rightarrow> heap \<times> ref" where
  "heap_new h obj =
     (h\<lparr>objects := (objects h)(next_ref h := obj), next_ref := Suc (next_ref h)\<rparr>, next_ref h)"

text \<open>
  \<^verbatim>\<open>id not in self.loop_predictions\<close> compares the id (a number) with every element of the
  list of \<^verbatim>\<open>LoopPrediction\<close> objects by \<^verbatim>\<open>==\<close>. A number never equals such an
  object (the class has no \<^verbatim>\<open>__eq__\<close>, so Python 2 falls back to comparing identities of
  objects of different types), hence every single comparison is \<^verbatim>\<open>False\<close>.
\<close>

definition py_eq_object_id :: "ref \<Rightarrow> int \<Rightarrow> bool" where
  "py_eq_object_id lp i = False"

definition list_contains_id :: "ref list \<Rightarrow> int \<Rightarrow> bool" where
  "list_contains_id lps i = list_ex (\<lambda>lp. py_eq_object_id lp i) lps"

section \<open>Builtins: dict, slices, xrange, list.sort\<close>

text \<open>A \<^verbatim>\<open>dict\<close> from ids to references, as an association list with one entry per key.\<close>

type_synonym dict = "(int \<times> ref) list"

definition dict_setitem :: "dict \<Rightarrow> int \<Rightarrow> ref \<Rightarrow> dict" where
  "dict_setitem d k v = AList.update k v d"

definition dict_delitem :: "dict \<Rightarrow> int \<Rightarrow> exn + dict" where
  "dict_delitem d k = (if map_of d k = None then Inl (KeyError k) else Inr (AList.delete k d))"

definition dict_get :: "dict \<Rightarrow> int \<Rightarrow> ref option" where
  "dict_get d k = map_of d k"

definition dict_keys :: "dict \<Rightarrow> int list" where
  "dict_keys d = map fst d"

text \<open>
  \<^verbatim>\<open>slice.indices(length)\<close> as CPython 2.7 computes it (\<^verbatim>\<open>PySlice_GetIndicesEx\<close>):
  a negative bound counts from the end, then it is clipped into the list.
\<close>

definition clip_index :: "int \<Rightarrow> int \<Rightarrow> int \<Rightarrow> int" where
  "clip_index step len i =
     (let i1 = (if i < 0 then i + len else i);
          i2 = (if i1 < 0 then (if step < 0 then - 1 else 0) else i1)
      in if i2 \<ge> len then (if step < 0 then len - 1 else len) else i2)"

definition slice_indices ::
  "int option \<Rightarrow> int option \<Rightarrow> int option \<Rightarrow> int \<Rightarrow> exn + (int \<times> int \<times> int)" where
  "slice_indices start stop step len =
     (let st = (case step of None \<Rightarrow> 1 | Some k \<Rightarrow> k)
      in if st = 0 then Inl ValueError
         else Inr ((case start of None \<Rightarrow> (if st < 0 then len - 1 else 0)
                                | Some i \<Rightarrow> clip_index st len i),
                   (case stop of None \<Rightarrow> (if st < 0 then - 1 else len)
                               | Some i \<Rightarrow> clip_index st len i),
                   st))"

text \<open>\<^verbatim>\<open>xrange(start, stop, step)\<close> for a step other than 0.\<close>

definition xrange :: "int \<Rightarrow> int \<Rightarrow> int \<Rightarrow> int list" where
  "xrange start stop step =
     (if step > 0
      then map (\<lambda>k. start + int k * step) [0 ..< nat ((stop - start + step - 1) div step)]
      else map (\<lambda>k. start + int k * step) [0 ..< nat ((start - stop - step - 1) div (- step))])"

text \<open>The list slices \<^verbatim>\<open>xs[n:]\<close> and \<^verbatim>\<open>xs[:n]\<close>.\<close>

definition list_slice_from :: "'a list \<Rightarrow> int \<Rightarrow> 'a list" where
  "list_slice_from xs n =
     (let len = int (length xs)
      in map (\<lambda>i. xs ! nat i) (xrange (clip_index 1 len n) len 1))"

definition list_slice_to :: "'a list \<Rightarrow> int \<Rightarrow> 'a list" where
  "list_slice_to xs n =
     (let len = int (length xs)
      in map (\<lambda>i. xs ! nat i) (xrange 0 (clip_index 1 len n) 1))"

text \<open>\<^verbatim>\<open>xs[key]\<close> on a builtin list: a negative key counts from the end.\<close>

definition list_getitem :: "'a list \<Rightarrow> int \<Rightarrow> exn + 'a" where
  "list_getitem xs key =
     (let len = int (length xs); i = (if key < 0 then key + len else key)
      in if i < 0 \<or> i \<ge> len then Inl (IndexError ListIndexOutOfRange) else Inr (xs ! nat i))"

text \<open>
  \<^verbatim>\<open>list.sort(cmp = f)\<close> is a builtin of Python 2 and not part of the repository. It is
  modelled by a stable insertion sort from the left that calls \<open>cmp\<close> with the element being
  inserted first, as the builtin's binary insertion does, and passes on an exception of
  \<open>cmp\<close>. Where \<open>cmp\<close> is a strict total order on the elements of the list, every correct
  comparison sort returns this same list. On a list of two elements the builtin makes one
  comparison, of the second element with the first, and exchanges the two when the answer is
  negative, which is what the model does. Which pairs the builtin compares on a longer list
  on which \<open>cmp\<close> is not a strict total order (records with the same id, or a NaN among
  the scores or deviations) is not modelled.
\<close>

fun insert_cmp :: "('a \<Rightarrow> 'a \<Rightarrow> exn + int) \<Rightarrow> 'a \<Rightarrow> 'a list \<Rightarrow> exn + 'a list" where
  "insert_cmp cmp x [] = Inr [x]"
| "insert_cmp cmp x (y # ys) =
     (case cmp x y of
        Inl e \<Rightarrow> Inl e
      | Inr c \<Rightarrow> if c < 0 then Inr (x # y # ys)
                 else (case insert_cmp cmp x ys of Inl e \<Rightarrow> Inl e | Inr zs \<Rightarrow> Inr (y # zs)))"

fun list_sort_from :: "('a \<Rightarrow> 'a \<Rightarrow> exn + int) \<Rightarrow> 'a list \<Rightarrow> 'a list \<Rightarrow> exn + 'a list" where
  "list_sort_from cmp done [] = Inr done"
| "list_sort_from cmp done (x # xs) =
     (case insert_cmp cmp x done of Inl e \<Rightarrow> Inl e | Inr done' \<Rightarrow> list_sort_from cmp done' xs)"

definition list_sort :: "('a \<Rightarrow> 'a \<Rightarrow> exn + int) \<Rightarrow> 'a list \<Rightarrow> exn + 'a list" where
  "list_sort cmp xs = list_sort_from cmp [] xs"

section \<open>class LoopPredictionSet\<close>

record LoopPredictionSet =
  loop_predictions :: "ref list"
  loop_prediction_map :: dict

text \<open>
  What \<^verbatim>\<open>extract_analysis_data\<close> reads off a set for one benchmark case. The record is
  declared before the methods of the class because every record declaration introduces a
  constant \<open>truncate\<close> of its own.
\<close>

record case_statistics =
  top_x_loop_prediction_set :: LoopPredictionSet
  median_scoring_structure :: ref
  best_scoring_structure :: ref
  worst_scoring_structure :: ref
  best_score :: pynum
  worst_score :: pynum
  percent_subangstrom_by_top_x :: "(int \<times> rat) list"
  total_percent_subangstrom :: rat
  top_x_percent_subangstrom :: rat
  closest_rmsd :: "pynum option"
  closest_score :: pynum
  top_1_rmsd :: "pynum option"
  top_x_rmsd :: "pynum option"
  top_x_score :: pynum
  loop_prediction_set :: LoopPredictionSet

definition LoopPredictionSet_init :: LoopPredictionSet where
  "LoopPredictionSet_init = \<lparr>loop_predictions = [], loop_prediction_map = []\<rparr>"

text \<open>\<^verbatim>\<open>from_list\<close>: the loop over the given predictions, then the constructor.\<close>

fun from_list_loop :: "heap \<Rightarrow> ref list \<Rightarrow> LoopPredictionSet \<Rightarrow> exn + LoopPredictionSet" where
  "from_list_loop h [] lps = Inr lps"
| "from_list_loop h (loop_prediction # rest) lps =
     (if list_contains_id (loop_predictions lps) (lp_id (objects h loop_prediction))
      then Inl AssertionError
      else from_list_loop h rest
             \<lparr>loop_predictions = loop_predictions lps @ [loop_prediction],
              loop_prediction_map =
                dict_setitem (loop_prediction_map lps) (lp_id (objects h loop_prediction))
                  loop_prediction\<rparr>)"

definition from_list :: "heap \<Rightarrow> ref list \<Rightarrow> exn + LoopPredictionSet" where
  "from_list h lps = from_list_loop h lps LoopPredictionSet_init"

text \<open>\<^verbatim>\<open>add\<close> returns the new heap, the updated set and the new prediction.\<close>

definition add ::
  "(string \<Rightarrow> bool) \<Rightarrow> heap \<Rightarrow> LoopPredictionSet \<Rightarrow> int \<Rightarrow> pynum \<Rightarrow> string option
     \<Rightarrow> pynum option \<Rightarrow> string option \<Rightarrow> xyz_matrix option \<Rightarrow> exn + (heap \<times> LoopPredictionSet \<times> ref)" where
  "add path_exists h self i sc pid r path mat =
     (if list_contains_id (loop_predictions self) i then Inl AssertionError
      else case LoopPrediction_init path_exists i sc pid r path mat of
             Inl e \<Rightarrow> Inl e
           | Inr obj \<Rightarrow>
               (case heap_new h obj of
                  (h', lp) \<Rightarrow>
                    Inr (h',
                         \<lparr>loop_predictions = loop_predictions self @ [lp],
                          loop_prediction_map = dict_setitem (loop_prediction_map self) i lp\<rparr>,
                         lp)))"

fun delete_ids :: "heap \<Rightarrow> ref list \<Rightarrow> dict \<Rightarrow> exn + dict" where
  "delete_ids h [] m = Inr m"
| "delete_ids h (lp # rest) m =
     (case dict_delitem m (lp_id (objects h lp)) of
        Inl e \<Rightarrow> Inl e
      | Inr m' \<Rightarrow> delete_ids h rest m')"

definition truncate :: "heap \<Rightarrow> LoopPredictionSet \<Rightarrow> int \<Rightarrow> exn + LoopPredictionSet" where
  "truncate h self n =
     (let lps_to_delete = list_slice_from (loop_predictions self) n
      in case delete_ids h lps_to_delete (loop_prediction_map self) of
           Inl e \<Rightarrow> Inl e
         | Inr m \<Rightarrow>
             (let lps = list_slice_to (loop_predictions self) n
              in if sort (map (\<lambda>lp. lp_id (objects h lp)) lps) = sort (dict_keys m)
                 then Inr \<lparr>loop_predictions = lps, loop_prediction_map = m\<rparr>
                 else Inl AssertionError))"

definition get :: "LoopPredictionSet \<Rightarrow> int \<Rightarrow> ref option" where
  "get self i = dict_get (loop_prediction_map self) i"

definition LoopPredictionSet_sort_by_rmsd ::
  "(string \<Rightarrow> bool) \<Rightarrow> heap \<Rightarrow> LoopPredictionSet \<Rightarrow> exn + LoopPredictionSet" where
  "LoopPredictionSet_sort_by_rmsd path_exists h self =
     (case list_sort (\<lambda>a b. LoopPrediction_sort_by_rmsd path_exists (objects h a) (objects h b))
             (loop_predictions self) of
        Inl e \<Rightarrow> Inl e
      | Inr lps \<Rightarrow> Inr (self\<lparr>loop_predictions := lps\<rparr>))"

definition LoopPredictionSet_sort_by_score ::
  "(string \<Rightarrow> bool) \<Rightarrow> heap \<Rightarrow> LoopPredictionSet \<Rightarrow> exn + LoopPredictionSet" where
  "LoopPredictionSet_sort_by_score path_exists h self =
     (case list_sort (\<lambda>a b. LoopPrediction_sort_by_score path_exists (objects h a) (objects h b))
             (loop_predictions self) of
        Inl e \<Rightarrow> Inl e
      | Inr lps \<Rightarrow> Inr (self\<lparr>loop_predictions := lps\<rparr>))"

text \<open>\<^verbatim>\<open>fraction_with_rmsd_lt\<close>: the counting loop, then the division.\<close>

fun count_rmsd_lt :: "heap \<Rightarrow> ref list \<Rightarrow> pynum \<Rightarrow> bool \<Rightarrow> bool \<Rightarrow> nat \<Rightarrow> exn + nat" where
  "count_rmsd_lt h [] x allow_failure strict c = Inr c"
| "count_rmsd_lt h (loop_prediction # rest) x allow_failure strict c =
     (if rmsd (objects h loop_prediction) = None \<and> \<not> allow_failure then Inl MissingRmsd
      else if (strict \<and> py_lt (rmsd (objects h loop_prediction)) (Some x))
              \<or> (\<not> strict \<and> py_le (rmsd (objects h loop_prediction)) (Some x))
           then count_rmsd_lt h rest x allow_failure strict (c + 1)
           else count_rmsd_lt h rest x allow_failure strict c)"

definition fraction_with_rmsd_lt ::
  "heap \<Rightarrow> LoopPredictionSet \<Rightarrow> pynum \<Rightarrow> bool \<Rightarrow> bool \<Rightarrow> exn + rat" where
  "fraction_with_rmsd_lt h self x allow_failure strict =
     (case count_rmsd_lt h (loop_predictions self) x allow_failure strict 0 of
        Inl e \<Rightarrow> Inl e
      | Inr c \<Rightarrow> if length (loop_predictions self) = 0 then Inl ZeroDivisionError
                 else Inr (of_nat c / of_nat (length (loop_predictions self))))"

text \<open>
  \<^verbatim>\<open>__getitem__\<close> dispatches on the type of the key; \<open>KOther\<close> stands for every key that
  is neither a \<^verbatim>\<open>slice\<close> nor an \<^verbatim>\<open>int\<close> (a \<^verbatim>\<open>long\<close>, for one). The two
  branches are \<open>getitem_slice\<close> and \<open>getitem_int\<close>.
\<close>

datatype key = KSlice "int option" "int option" "int option" | KInt int | KOther

datatype item = ItemSet LoopPredictionSet | ItemPrediction ref

definition getitem_slice ::
  "heap \<Rightarrow> LoopPredictionSet \<Rightarrow> int option \<Rightarrow> int option \<Rightarrow> int option
     \<Rightarrow> exn + LoopPredictionSet" where
  "getitem_slice h self start stop step =
     (case slice_indices start stop step (int (length (loop_predictions self))) of
        Inl e \<Rightarrow> Inl e
      | Inr (lo, hi, st) \<Rightarrow>
          from_list h (map (\<lambda>ii. loop_predictions self ! nat ii) (xrange lo hi st)))"

definition getitem_int :: "LoopPredictionSet \<Rightarrow> int \<Rightarrow> exn + ref" where
  "getitem_int self key =
     (if key \<ge> int (length (loop_predictions self))
      then Inl (IndexError (SetContainsOnly (length (loop_predictions self)) key))
      else list_getitem (loop_predictions self) key)"

definition getitem :: "heap \<Rightarrow> LoopPredictionSet \<Rightarrow> key \<Rightarrow> exn + item" where
  "getitem h self k =
     (case k of
        KSlice start stop step \<Rightarrow>
          (case getitem_slice h self start stop step of
             Inl e \<Rightarrow> Inl e | Inr lps \<Rightarrow> Inr (ItemSet lps))
      | KInt i \<Rightarrow>
          (case getitem_int self i of Inl e \<Rightarrow> Inl e | Inr lp \<Rightarrow> Inr (ItemPrediction lp))
      | KOther \<Rightarrow> Inl TypeError)"

section \<open>The per-case statistics of extract\_analysis\_data\<close>

text \<open>
  Printing a prediction or a set calls \<^verbatim>\<open>__repr__\<close>, which runs \<^verbatim>\<open>_check_types\<close>
  on each prediction printed; the text itself goes to the terminal and is not modelled.
\<close>

definition print_prediction :: "(string \<Rightarrow> bool) \<Rightarrow> heap \<Rightarrow> ref \<Rightarrow> exn + unit" where
  "print_prediction path_exists h lp = check_types path_exists (objects h lp)"

fun print_predictions :: "(string \<Rightarrow> bool) \<Rightarrow> heap \<Rightarrow> ref list \<Rightarrow> exn + unit" where
  "print_predictions path_exists h [] = Inr ()"
| "print_predictions path_exists h (lp # rest) =
     (case print_prediction path_exists h lp of
        Inl e \<Rightarrow> Inl e
      | Inr _ \<Rightarrow> print_predictions path_exists h rest)"

text \<open>The loop over \<^verbatim>\<open>top_x_var\<close> that fills the table of the TopX plot.\<close>

fun percent_subangstrom_rows ::
  "heap \<Rightarrow> LoopPredictionSet \<Rightarrow> int list \<Rightarrow> exn + (int \<times> rat) list" where
  "percent_subangstrom_rows h lps [] = Inr []"
| "percent_subangstrom_rows h lps (top_x_var # rest) =
     (case getitem_slice h lps None (Some top_x_var) None of
        Inl e \<Rightarrow> Inl e
      | Inr new_subset \<Rightarrow>
          (case fraction_with_rmsd_lt h new_subset (Num 1) False True of
             Inl e \<Rightarrow> Inl e
           | Inr f \<Rightarrow>
               (case percent_subangstrom_rows h lps rest of
                  Inl e \<Rightarrow> Inl e
                | Inr rows \<Rightarrow> Inr ((top_x_var, 100 * f) # rows))))"

text \<open>The linear scan over the TopX set for the lowest RMSD, the score breaking ties;
  \<open>tx_rmsd\<close> and \<open>tx_score\<close> are the variables \<^verbatim>\<open>top_x_rmsd\<close> and \<^verbatim>\<open>top_x_score\<close>.\<close>

fun top_x_scan ::
  "heap \<Rightarrow> ref list \<Rightarrow> pynum option \<times> pynum \<Rightarrow> pynum option \<times> pynum" where
  "top_x_scan h [] (tx_rmsd, tx_score) = (tx_rmsd, tx_score)"
| "top_x_scan h (s # rest) (tx_rmsd, tx_score) =
     (if py_lt (rmsd (objects h s)) tx_rmsd
         \<or> (py_eq (rmsd (objects h s)) tx_rmsd \<and> num_lt (score (objects h s)) tx_score)
      then top_x_scan h rest (rmsd (objects h s), score (objects h s))
      else top_x_scan h rest (tx_rmsd, tx_score))"

text \<open>
  \<open>extract_analysis_data_case\<close> is the body of the loop over the benchmark cases in
  \<^verbatim>\<open>extract_analysis_data\<close>, from the
  first \<^verbatim>\<open>sort_by_score\<close> to the two final assertions, preceded by the sanity check
  \<^verbatim>\<open>assert(top_x <= expectn)\<close> of the function. Reading the input files and computing the
  RMSDs come before it and writing the report after it; \<^verbatim>\<open>sys.exit(1)\<close> is the value
  \<open>SystemExit 1\<close>. No prediction is modified in this part, so the heap is only read.
\<close>

definition extract_analysis_data_case ::
  "(string \<Rightarrow> bool) \<Rightarrow> heap \<Rightarrow> LoopPredictionSet \<Rightarrow> int \<Rightarrow> int \<Rightarrow> exn + case_statistics" where
  "extract_analysis_data_case path_exists h lps0 expectn top_x =
     (if \<not> top_x \<le> expectn then Inl AssertionError else
      (case LoopPredictionSet_sort_by_score path_exists h lps0 of Inl e \<Rightarrow> Inl e | Inr lps1 \<Rightarrow>
      (case truncate h lps1 expectn of Inl e \<Rightarrow> Inl e | Inr lps2 \<Rightarrow>
      (if int (length (loop_predictions lps2)) \<noteq> expectn then Inl (SystemExit 1) else
      (case getitem_slice h lps2 None (Some top_x) None of Inl e \<Rightarrow> Inl e | Inr top_x_set \<Rightarrow>
      (case getitem_int lps2 (expectn div 2) of Inl e \<Rightarrow> Inl e | Inr median \<Rightarrow>
      (case getitem_int lps2 0 of Inl e \<Rightarrow> Inl e | Inr best \<Rightarrow>
      (case getitem_int lps2 (- 1) of Inl e \<Rightarrow> Inl e | Inr worst \<Rightarrow>
      (case getitem_int top_x_set 0 of Inl e \<Rightarrow> Inl e | Inr first_of_top_x \<Rightarrow>
      (if first_of_top_x \<noteq> best then Inl AssertionError else
      (case print_predictions path_exists h (loop_predictions top_x_set) of
         Inl e \<Rightarrow> Inl e | Inr _ \<Rightarrow>
      (case print_prediction path_exists h best of Inl e \<Rightarrow> Inl e | Inr _ \<Rightarrow>
      (case print_prediction path_exists h median of Inl e \<Rightarrow> Inl e | Inr _ \<Rightarrow>
      (case print_prediction path_exists h worst of Inl e \<Rightarrow> Inl e | Inr _ \<Rightarrow>
      (case LoopPredictionSet_sort_by_score path_exists h lps2 of Inl e \<Rightarrow> Inl e | Inr lps3 \<Rightarrow>
      (case percent_subangstrom_rows h lps3 [1 .. int (length (loop_predictions lps3))] of
         Inl e \<Rightarrow> Inl e | Inr rows \<Rightarrow>
      (case fraction_with_rmsd_lt h lps3 (Num 1) False True of Inl e \<Rightarrow> Inl e | Inr total_f \<Rightarrow>
      (case fraction_with_rmsd_lt h top_x_set (Num 1) False True of Inl e \<Rightarrow> Inl e | Inr top_f \<Rightarrow>
      (case LoopPredictionSet_sort_by_rmsd path_exists h lps3 of Inl e \<Rightarrow> Inl e | Inr lps4 \<Rightarrow>
      (case getitem_int lps4 0 of Inl e \<Rightarrow> Inl e | Inr closest \<Rightarrow>
      (case top_x_scan h (loop_predictions top_x_set)
              (rmsd (objects h best), score (objects h best)) of
         (tx_rmsd, tx_score) \<Rightarrow>
      (if \<not> num_le tx_score (score (objects h worst)) then Inl AssertionError else
      (if \<not> py_le tx_rmsd (rmsd (objects h best)) then Inl AssertionError else
       Inr \<lparr>top_x_loop_prediction_set = top_x_set,
            median_scoring_structure = median,
            best_scoring_structure = best,
            worst_scoring_structure = worst,
            best_score = score (objects h best),
            worst_score = score (objects h worst),
            percent_subangstrom_by_top_x = rows,
            total_percent_subangstrom = 100 * total_f,
            top_x_percent_subangstrom = 100 * top_f,
            closest_rmsd = rmsd (objects h closest),
            closest_score = score (objects h closest),
            top_1_rmsd = rmsd (objects h best),
            top_x_rmsd = tx_rmsd,
            top_x_score = tx_score,
            loop_prediction_set = lps4\<rparr>)))))))))))))))))))))))"

section \<open>Notions of the specification\<close>

text \<open>
  The specification's Prediction Set has unique ids, and its ordered sequence and its lookup
  mapping contain the same ids, each id mapped to its record. Its records were validated
  when they were constructed.
\<close>

definition ids_of :: "heap \<Rightarrow> ref list \<Rightarrow> int list" where
  "ids_of h lps = map (\<lambda>lp. lp_id (objects h lp)) lps"

definition unique_ids :: "heap \<Rightarrow> LoopPredictionSet \<Rightarrow> bool" where
  "unique_ids h s = distinct (ids_of h (loop_predictions s))"

definition map_agrees :: "heap \<Rightarrow> LoopPredictionSet \<Rightarrow> bool" where
  "map_agrees h s =
     (distinct (dict_keys (loop_prediction_map s))
      \<and> set (dict_keys (loop_prediction_map s)) = set (ids_of h (loop_predictions s))
      \<and> list_all (\<lambda>lp. get s (lp_id (objects h lp)) = Some lp) (loop_predictions s))"

text \<open>Every record of the set has been allocated in the heap.\<close>

definition allocated :: "heap \<Rightarrow> LoopPredictionSet \<Rightarrow> bool" where
  "allocated h s = list_all (\<lambda>lp. lp < next_ref h) (loop_predictions s)"

definition well_typed :: "(string \<Rightarrow> bool) \<Rightarrow> heap \<Rightarrow> LoopPredictionSet \<Rightarrow> bool" where
  "well_typed path_exists h s =
     list_all (\<lambda>lp. check_types path_exists (objects h lp) = Inr ()) (loop_predictions s)"

definition all_have_rmsd :: "heap \<Rightarrow> LoopPredictionSet \<Rightarrow> bool" where
  "all_have_rmsd h s = list_all (\<lambda>lp. rmsd (objects h lp) \<noteq> None) (loop_predictions s)"

text \<open>No score and no deviation in the set is NaN.\<close>

definition no_nan :: "heap \<Rightarrow> LoopPredictionSet \<Rightarrow> bool" where
  "no_nan h s = list_all (\<lambda>lp. not_nan (objects h lp)) (loop_predictions s)"

text \<open>
  A record is below the threshold \<open>x\<close> when it has a deviation and the deviation is \<open>< x\<close>
  (\<open>\<le> x\<close> when not strict); \<open>fraction_below\<close> is the fraction of such records.
\<close>

definition below_threshold :: "pynum \<Rightarrow> bool \<Rightarrow> LoopPrediction \<Rightarrow> bool" where
  "below_threshold x strict lp =
     (case rmsd lp of None \<Rightarrow> False | Some d \<Rightarrow> if strict then num_lt d x else num_le d x)"

definition fraction_below :: "heap \<Rightarrow> ref list \<Rightarrow> pynum \<Rightarrow> bool \<Rightarrow> rat" where
  "fraction_below h lps x strict =
     of_nat (length (filter (\<lambda>lp. below_threshold x strict (objects h lp)) lps))
       / of_nat (length lps)"

text \<open>
  The score order and the deviation order of a sequence of records, the population of the
  \<open>expectn\<close> best-scoring records, and the place of the pair (deviation, score), which the
  TopX scan minimises, in the lexicographic order of such pairs.
\<close>

definition score_order :: "heap \<Rightarrow> ref list \<Rightarrow> ref list" where
  "score_order h lps = sort_key (\<lambda>lp. score_key (objects h lp)) lps"

definition rmsd_order :: "heap \<Rightarrow> ref list \<Rightarrow> ref list" where
  "rmsd_order h lps = sort_key (\<lambda>lp. rmsd_key (objects h lp)) lps"

definition pair_key :: "pynum option \<times> pynum \<Rightarrow> (int \<times> rat) option \<times> (int \<times> rat)" where
  "pair_key p = (map_option num_key (fst p), num_key (snd p))"

definition pair_ok :: "pynum option \<times> pynum \<Rightarrow> bool" where
  "pair_ok p = (fst p \<noteq> Some NaN \<and> snd p \<noteq> NaN)"

definition rmsd_score :: "heap \<Rightarrow> ref \<Rightarrow> pynum option \<times> pynum" where
  "rmsd_score h lp = (rmsd (objects h lp), score (objects h lp))"

definition population :: "heap \<Rightarrow> LoopPredictionSet \<Rightarrow> int \<Rightarrow> ref list" where
  "population h s expectn = take (nat expectn) (score_order h (loop_predictions s))"

text \<open>Heaps and sets for the examples.\<close>

definition prediction :: "int \<Rightarrow> pynum \<Rightarrow> pynum option \<Rightarrow> LoopPrediction" where
  "prediction i sc r =
     \<lparr>lp_id = i, score = sc, pdb_id = None, rmsd = r, pdb_path = None,
      pdb_loop_residue_matrix = None\<rparr>"

definition empty_heap :: heap where
  "empty_heap = \<lparr>objects = (\<lambda>_. prediction 0 (Num 0) None), next_ref = 0\<rparr>"

definition heap_of :: "LoopPrediction list \<Rightarrow> heap" where
  "heap_of ps = \<lparr>objects = (\<lambda>r. if r < length ps then ps ! r else prediction 0 (Num 0) None),
                 next_ref = length ps\<rparr>"

definition example_heap :: heap where
  "example_heap = heap_of
     [prediction 0 (Num 0) (Some (Num (1 / 2))), prediction 1 (Num 1) (Some (Num 1)),
      prediction 2 (Num 2) (Some (Num (3 / 2))), prediction 3 (Num 3) (Some (Num (9 / 10)))]"

definition example_set :: LoopPredictionSet where
  "example_set = \<lparr>loop_predictions = [0, 1, 2, 3],
                  loop_prediction_map = [(0, 0), (1, 1), (2, 2), (3, 3)]\<rparr>"

definition shuffled_set :: LoopPredictionSet where
  "shuffled_set = \<lparr>loop_predictions = [2, 0, 3, 1],
                   loop_prediction_map = [(0, 0), (1, 1), (2, 2), (3, 3)]\<rparr>"

text \<open>The specification's example of ten records with the scores 10 down to 1; the record with
  the third-best score has the lowest deviation of the best three.\<close>

definition benchmark_heap :: heap where
  "benchmark_heap = heap_of
     [prediction 0 (Num 10) (Some (Num 1)), prediction 1 (Num 9) (Some (Num 1)),
      prediction 2 (Num 8) (Some (Num 1)), prediction 3 (Num 7) (Some (Num 1)),
      prediction 4 (Num 6) (Some (Num 1)), prediction 5 (Num 5) (Some (Num 1)),
      prediction 6 (Num 4) (Some (Num 1)), prediction 7 (Num 3) (Some (Num (1 / 2))),
      prediction 8 (Num 2) (Some (Num 3)), prediction 9 (Num 1) (Some (Num 2))]"

definition benchmark_set :: LoopPredictionSet where
  "benchmark_set =
     \<lparr>loop_predictions = [0, 1, 2, 3, 4, 5, 6, 7, 8, 9],
      loop_prediction_map =
        [(0, 0), (1, 1), (2, 2), (3, 3), (4, 4), (5, 5), (6, 6), (7, 7), (8, 8), (9, 9)]\<rparr>"

text \<open>
  Two records of which the first has the score NaN, in two heaps that differ in the
  deviations, and the two sequences of the two records.
\<close>

definition nan_heap :: heap where
  "nan_heap = heap_of [prediction 1 NaN (Some (Num 2)), prediction 2 (Num 1) (Some (Num 1))]"

definition nan_heap' :: heap where
  "nan_heap' = heap_of [prediction 1 NaN (Some (Num 1)), prediction 2 (Num 1) (Some (Num 2))]"

definition nan_set :: LoopPredictionSet where
  "nan_set = \<lparr>loop_predictions = [0, 1], loop_prediction_map = [(1, 0), (2, 1)]\<rparr>"

definition nan_set_swapped :: LoopPredictionSet where
  "nan_set_swapped = \<lparr>loop_predictions = [1, 0], loop_prediction_map = [(1, 0), (2, 1)]\<rparr>"

section \<open>Properties of the comparisons and the comparators\<close>

lemma num_lt_key: "a \<noteq> NaN \<Longrightarrow> b \<noteq> NaN \<Longrightarrow> num_lt a b \<longleftrightarrow> num_key a < num_key b"
  by (cases a; cases b) (simp_all add: less_prod_def)

lemma num_eq_key: "a \<noteq> NaN \<Longrightarrow> b \<noteq> NaN \<Longrightarrow> num_eq a b \<longleftrightarrow> num_key a = num_key b"
  by (cases a; cases b) simp_all

lemma num_key_eq: "a \<noteq> NaN \<Longrightarrow> b \<noteq> NaN \<Longrightarrow> num_key a = num_key b \<longleftrightarrow> a = b"
  by (cases a; cases b) simp_all

lemma num_le_key: "a \<noteq> NaN \<Longrightarrow> b \<noteq> NaN \<Longrightarrow> num_le a b \<longleftrightarrow> num_key a \<le> num_key b"
  by (auto simp: num_le_def num_lt_key num_eq_key)

lemma py_lt_key:
  "a \<noteq> Some NaN \<Longrightarrow> b \<noteq> Some NaN \<Longrightarrow>
     py_lt a b \<longleftrightarrow> map_option num_key a < map_option num_key b"
  by (cases a; cases b) (simp_all add: num_lt_key)

lemma py_eq_key:
  "a \<noteq> Some NaN \<Longrightarrow> b \<noteq> Some NaN \<Longrightarrow>
     py_eq a b \<longleftrightarrow> map_option num_key a = map_option num_key b"
  by (cases a; cases b) (simp_all add: num_eq_key)

lemma opt_key_eq:
  "a \<noteq> Some NaN \<Longrightarrow> b \<noteq> Some NaN \<Longrightarrow>
     map_option num_key a = map_option num_key b \<longleftrightarrow> a = b"
  by (cases a; cases b) (simp_all add: num_key_eq)

lemma py_le_key:
  "a \<noteq> Some NaN \<Longrightarrow> b \<noteq> Some NaN \<Longrightarrow>
     py_le a b \<longleftrightarrow> map_option num_key a \<le> map_option num_key b"
  by (cases a; cases b) (simp_all add: num_le_key)

lemma py_lt_or_eq_le:
  assumes "a \<noteq> Some NaN" and "py_lt a b \<or> (a = b \<and> P)"
  shows "py_le a b"
  using assms by (cases a; cases b) (auto simp: num_le_def elim: num_eq.elims num_lt.elims)

lemma lex3_less:
  fixes a a' :: "'a::linorder" and b b' :: "'b::linorder" and c c' :: "'c::linorder"
  shows "(a, b, c) < (a', b', c') \<longleftrightarrow> a < a' \<or> (a = a' \<and> (b < b' \<or> (b = b' \<and> c < c')))"
  by (auto simp: less_prod_def)

lemma lex2_le:
  fixes a a' :: "'a::linorder" and b b' :: "'b::linorder"
  shows "(a, b) \<le> (a', b') \<longleftrightarrow> a < a' \<or> (a = a' \<and> b \<le> b')"
  by (auto simp: less_eq_prod_def)

lemma lex2_less:
  fixes a a' :: "'a::linorder" and b b' :: "'b::linorder"
  shows "(a, b) < (a', b') \<longleftrightarrow> a < a' \<or> (a = a' \<and> b < b')"
  by (auto simp: less_prod_def)

lemma score_key_less:
  "score_key a < score_key b \<longleftrightarrow>
     num_key (score a) < num_key (score b)
     \<or> (num_key (score a) = num_key (score b) \<and>
         (map_option num_key (rmsd a) < map_option num_key (rmsd b)
          \<or> (map_option num_key (rmsd a) = map_option num_key (rmsd b) \<and> lp_id a < lp_id b)))"
  unfolding score_key_def by (rule lex3_less)

lemma rmsd_key_less:
  "rmsd_key a < rmsd_key b \<longleftrightarrow>
     map_option num_key (rmsd a) < map_option num_key (rmsd b)
     \<or> (map_option num_key (rmsd a) = map_option num_key (rmsd b) \<and>
         (num_key (score a) < num_key (score b)
          \<or> (num_key (score a) = num_key (score b) \<and> lp_id a < lp_id b)))"
  unfolding rmsd_key_def by (rule lex3_less)

lemma sort_by_score_key:
  assumes "check_types fs a = Inr ()" "check_types fs b = Inr ()" "lp_id a \<noteq> lp_id b"
    and "not_nan a" "not_nan b"
  shows "LoopPrediction_sort_by_score fs a b = Inr (if score_key a < score_key b then - 1 else 1)"
proof -
  have n: "score a \<noteq> NaN" "score b \<noteq> NaN" "rmsd a \<noteq> Some NaN" "rmsd b \<noteq> Some NaN"
    using assms(4,5) by (simp_all add: not_nan_def)
  show ?thesis
    using assms(1-3)
    by (auto simp: LoopPrediction_sort_by_score_def score_key_less
        num_lt_key [OF n(1,2)] num_eq_key [OF n(1,2)] py_lt_key [OF n(3,4)] py_eq_key [OF n(3,4)])
qed

lemma sort_by_rmsd_key:
  assumes "check_types fs a = Inr ()" "check_types fs b = Inr ()" "lp_id a \<noteq> lp_id b"
    and "not_nan a" "not_nan b"
  shows "LoopPrediction_sort_by_rmsd fs a b = Inr (if rmsd_key a < rmsd_key b then - 1 else 1)"
proof -
  have n: "score a \<noteq> NaN" "score b \<noteq> NaN" "rmsd a \<noteq> Some NaN" "rmsd b \<noteq> Some NaN"
    using assms(4,5) by (simp_all add: not_nan_def)
  show ?thesis
    using assms(1-3)
    by (auto simp: LoopPrediction_sort_by_rmsd_def rmsd_key_less
        num_lt_key [OF n(1,2)] num_eq_key [OF n(1,2)] py_lt_key [OF n(3,4)] py_eq_key [OF n(3,4)])
qed

lemma score_key_neq: "lp_id a \<noteq> lp_id b \<Longrightarrow> score_key a \<noteq> score_key b"
  by (simp add: score_key_def)

lemma rmsd_key_neq: "lp_id a \<noteq> lp_id b \<Longrightarrow> rmsd_key a \<noteq> rmsd_key b"
  by (simp add: rmsd_key_def)

section \<open>The sort builtin on a strict total order\<close>

lemma insert_cmp_insort_key:
  assumes "\<And>y. y \<in> set ys \<Longrightarrow> cmp x y = Inr (if f x < f y then - 1 else 1)"
    and "\<And>y. y \<in> set ys \<Longrightarrow> f x \<noteq> f y"
  shows "insert_cmp cmp x ys = Inr (insort_key f x ys)"
  using assms
proof (induction ys)
  case Nil
  then show ?case by simp
next
  case (Cons y ys)
  have c: "cmp x y = Inr (if f x < f y then - 1 else 1)" and ne: "f x \<noteq> f y"
    using Cons.prems by simp_all
  have ih: "insert_cmp cmp x ys = Inr (insort_key f x ys)"
    using Cons.IH Cons.prems by simp
  show ?case
  proof (cases "f x < f y")
    case True
    then have "f x \<le> f y" by simp
    then show ?thesis using c True by simp
  next
    case False
    then have "\<not> f x \<le> f y" using ne by simp
    then show ?thesis using c False ih by simp
  qed
qed

lemma list_sort_from_fold:
  assumes "\<And>x y. x \<in> set (acc @ xs) \<Longrightarrow> y \<in> set (acc @ xs) \<Longrightarrow> x \<noteq> y
             \<Longrightarrow> cmp x y = Inr (if f x < f y then - 1 else 1)"
    and "inj_on f (set (acc @ xs))" and "distinct (acc @ xs)"
  shows "list_sort_from cmp acc xs = Inr (fold (insort_key f) xs acc)"
  using assms
proof (induction xs arbitrary: acc)
  case Nil
  then show ?case by simp
next
  case (Cons x xs)
  have xacc: "x \<notin> set acc" using Cons.prems(3) by simp
  have ins: "insert_cmp cmp x acc = Inr (insort_key f x acc)"
  proof (rule insert_cmp_insort_key)
    fix y assume y: "y \<in> set acc"
    then have "x \<noteq> y" using xacc by auto
    then show "cmp x y = Inr (if f x < f y then - 1 else 1)"
      using Cons.prems(1) [of x y] y by simp
    show "f x \<noteq> f y"
      using Cons.prems(2) y \<open>x \<noteq> y\<close> by (auto simp: inj_on_def)
  qed
  have s: "set (insort_key f x acc @ xs) = set (acc @ x # xs)"
    by (auto simp: set_insort_key)
  have "list_sort_from cmp (insort_key f x acc) xs
          = Inr (fold (insort_key f) xs (insort_key f x acc))"
  proof (rule Cons.IH)
    show "inj_on f (set (insort_key f x acc @ xs))"
      using Cons.prems(2) by (simp only: s)
    show "distinct (insort_key f x acc @ xs)"
      using Cons.prems(3) by (auto simp: distinct_insort set_insort_key)
    fix a b
    assume ab: "a \<in> set (insort_key f x acc @ xs)" "b \<in> set (insort_key f x acc @ xs)"
      and ne: "a \<noteq> b"
    have "a \<in> set (acc @ x # xs)" "b \<in> set (acc @ x # xs)"
      using ab by (simp_all only: s)
    then show "cmp a b = Inr (if f a < f b then - 1 else 1)"
      using ne by (rule Cons.prems(1))
  qed
  then show ?case using ins by simp
qed

lemma list_sort_sort_key:
  assumes "\<And>x y. x \<in> set xs \<Longrightarrow> y \<in> set xs \<Longrightarrow> x \<noteq> y
             \<Longrightarrow> cmp x y = Inr (if f x < f y then - 1 else 1)"
    and "inj_on f (set xs)" and "distinct xs"
  shows "list_sort cmp xs = Inr (sort_key f xs)"
proof -
  have "list_sort_from cmp [] xs = Inr (fold (insort_key f) xs [])"
    by (rule list_sort_from_fold) (use assms in simp_all)
  then show ?thesis
    using assms(2) by (simp add: list_sort_def sort_key_conv_fold)
qed

section \<open>Slices and from\_list\<close>

lemma xrange_step_1: "xrange a b 1 = map (\<lambda>k. a + int k) [0 ..< nat (b - a)]"
  by (simp add: xrange_def)

lemma map_nth_xrange:
  assumes "0 \<le> a" "a \<le> b" "b \<le> int (length xs)"
  shows "map (\<lambda>i. xs ! nat i) (xrange a b 1) = take (nat (b - a)) (drop (nat a) xs)"
proof (rule nth_equalityI)
  show "length (map (\<lambda>i. xs ! nat i) (xrange a b 1)) = length (take (nat (b - a)) (drop (nat a) xs))"
    using assms by (simp add: xrange_step_1)
next
  fix i assume "i < length (map (\<lambda>i. xs ! nat i) (xrange a b 1))"
  then have i: "i < nat (b - a)" by (simp add: xrange_step_1)
  have "nat (a + int i) = nat a + i" using assms(1) by simp
  then show "map (\<lambda>i. xs ! nat i) (xrange a b 1) ! i = take (nat (b - a)) (drop (nat a) xs) ! i"
    using i assms by (simp add: xrange_step_1)
qed

lemma clip_index_nonneg: "0 \<le> n \<Longrightarrow> clip_index 1 len n = min n len"
  by (simp add: clip_index_def Let_def)

lemma list_slice_to_take: "0 \<le> n \<Longrightarrow> list_slice_to xs n = take (nat n) xs"
proof -
  assume n: "0 \<le> n"
  have "map (\<lambda>i. xs ! nat i) (xrange 0 (min n (int (length xs))) 1)
          = take (nat (min n (int (length xs)) - 0)) (drop (nat 0) xs)"
    using n by (intro map_nth_xrange) simp_all
  then show ?thesis
    using n by (simp add: list_slice_to_def clip_index_nonneg Let_def min_def)
qed

lemma list_slice_from_drop: "0 \<le> n \<Longrightarrow> list_slice_from xs n = drop (nat n) xs"
proof -
  assume n: "0 \<le> n"
  let ?len = "int (length xs)"
  have "map (\<lambda>i. xs ! nat i) (xrange (min n ?len) ?len 1)
          = take (nat (?len - min n ?len)) (drop (nat (min n ?len)) xs)"
    using n by (intro map_nth_xrange) simp_all
  then show ?thesis
    using n by (simp add: list_slice_from_def clip_index_nonneg Let_def min_def)
qed

lemma list_contains_id_False: "\<not> list_contains_id lps i"
  by (simp add: list_contains_id_def py_eq_object_id_def list_ex_iff)

lemma from_list_loop_eq:
  "from_list_loop h lps s =
     Inr \<lparr>loop_predictions = loop_predictions s @ lps,
          loop_prediction_map = fold (\<lambda>lp m. dict_setitem m (lp_id (objects h lp)) lp) lps (loop_prediction_map s)\<rparr>"
  by (induction lps arbitrary: s) (simp_all add: list_contains_id_False)

lemma from_list_eq:
  "from_list h lps =
     Inr \<lparr>loop_predictions = lps,
          loop_prediction_map = fold (\<lambda>lp m. dict_setitem m (lp_id (objects h lp)) lp) lps []\<rparr>"
  by (simp add: from_list_def from_list_loop_eq LoopPredictionSet_init_def)

lemma fold_setitem_keys:
  "set (dict_keys (fold (\<lambda>lp m. dict_setitem m (lp_id (objects h lp)) lp) lps d))
     = set (dict_keys d) \<union> set (ids_of h lps)"
  by (induction lps arbitrary: d)
     (auto simp: dict_keys_def dict_setitem_def ids_of_def dom_update)

lemma fold_setitem_distinct:
  "distinct (dict_keys d) \<Longrightarrow>
     distinct (dict_keys (fold (\<lambda>lp m. dict_setitem m (lp_id (objects h lp)) lp) lps d))"
  by (induction lps arbitrary: d)
     (auto simp: dict_keys_def dict_setitem_def distinct_update)

lemma fold_setitem_lookup:
  "distinct (ids_of h lps) \<Longrightarrow> lp \<in> set lps \<Longrightarrow>
     map_of (fold (\<lambda>lp m. dict_setitem m (lp_id (objects h lp)) lp) lps d) (lp_id (objects h lp)) = Some lp"
proof (induction lps arbitrary: d)
  case Nil
  then show ?case by simp
next
  case (Cons a lps)
  show ?case
  proof (cases "lp \<in> set lps")
    case True
    then show ?thesis using Cons by (simp add: ids_of_def)
  next
    case False
    then have [simp]: "lp = a" using Cons.prems by simp
    have notin: "lp_id (objects h a) \<notin> set (ids_of h lps)"
      using Cons.prems by (simp add: ids_of_def)
    have "map_of (fold (\<lambda>lp m. dict_setitem m (lp_id (objects h lp)) lp) lps d') k = map_of d' k"
      if "k \<notin> set (ids_of h lps)" for k d'
      using that by (induction lps arbitrary: d') (auto simp: ids_of_def dict_setitem_def update_conv')
    then show ?thesis using notin by (simp add: dict_setitem_def update_conv')
  qed
qed

lemma div_mult_le_int:
  fixes a b :: int
  assumes "0 < b" and "k + 1 \<le> a div b"
  shows "(k + 1) * b \<le> a"
proof -
  have "(k + 1) * b \<le> (a div b) * b"
    using assms by (intro mult_right_mono) simp_all
  also have "\<dots> = a - a mod b" by (simp add: minus_mod_eq_div_mult)
  also have "\<dots> \<le> a" using assms(1) by simp
  finally show ?thesis .
qed

text \<open>The indices that \<^verbatim>\<open>__getitem__\<close> reads for a slice lie within the list.\<close>

lemma xrange_in_range:
  assumes "slice_indices start stop step len = Inr (lo, hi, st)" and "0 \<le> len"
    and "i \<in> set (xrange lo hi st)"
  shows "0 \<le> i \<and> i < len"
proof -
  have st0: "st \<noteq> 0" using assms(1) by (auto simp: slice_indices_def Let_def split: if_splits)
  show ?thesis
  proof (cases "st > 0")
    case True
    have lo: "0 \<le> lo"
      using assms(1,2) True
      by (auto simp: slice_indices_def clip_index_def Let_def split: if_splits option.splits)
    have hi: "hi \<le> len"
      using assms(1,2) True
      by (auto simp: slice_indices_def clip_index_def Let_def split: if_splits option.splits)
    obtain k where k: "i = lo + int k * st" "k < nat ((hi - lo + st - 1) div st)"
      using assms(3) True by (auto simp: xrange_def)
    have "int k + 1 \<le> (hi - lo + st - 1) div st" using k(2) by linarith
    then have "(int k + 1) * st \<le> hi - lo + st - 1"
      using True by (intro div_mult_le_int)
    then have "lo + int k * st < hi" by (simp add: algebra_simps)
    moreover have "0 \<le> int k * st" using True by simp
    ultimately show ?thesis using lo hi k(1) by linarith
  next
    case False
    then have neg: "st < 0" using st0 by simp
    have lo: "lo \<le> len - 1"
      using assms(1,2) neg
      by (auto simp: slice_indices_def clip_index_def Let_def split: if_splits option.splits)
    have hi: "- 1 \<le> hi"
      using assms(1,2) neg
      by (auto simp: slice_indices_def clip_index_def Let_def split: if_splits option.splits)
    obtain k where k: "i = lo + int k * st" "k < nat ((lo - hi - st - 1) div (- st))"
      using assms(3) neg by (auto simp: xrange_def)
    have "int k + 1 \<le> (lo - hi - st - 1) div (- st)" using k(2) by linarith
    then have "(int k + 1) * (- st) \<le> lo - hi - st - 1"
      using neg by (intro div_mult_le_int) simp_all
    then have "lo + int k * st > hi" by (simp add: algebra_simps)
    moreover have "int k * st \<le> 0" using neg by (simp add: mult_nonneg_nonpos)
    ultimately show ?thesis using lo hi k(1) by linarith
  qed
qed

lemma getitem_slice_range:
  assumes "0 \<le> a" "a \<le> b" "b \<le> int (length (loop_predictions s))"
  shows "getitem_slice h s (Some a) (Some b) None =
           from_list h (take (nat (b - a)) (drop (nat a) (loop_predictions s)))"
proof -
  have "clip_index 1 (int (length (loop_predictions s))) a = a"
       "clip_index 1 (int (length (loop_predictions s))) b = b"
    using assms by (simp_all add: clip_index_nonneg)
  then show ?thesis
    using assms by (simp add: getitem_slice_def slice_indices_def map_nth_xrange)
qed

lemma getitem_slice_prefix:
  assumes "0 \<le> b"
  shows "getitem_slice h s None (Some b) None = from_list h (take (nat b) (loop_predictions s))"
proof -
  let ?len = "int (length (loop_predictions s))"
  have "map (\<lambda>i. loop_predictions s ! nat i) (xrange 0 (min b ?len) 1)
          = take (nat (min b ?len - 0)) (drop (nat 0) (loop_predictions s))"
    using assms by (intro map_nth_xrange) simp_all
  then show ?thesis
    using assms by (simp add: getitem_slice_def slice_indices_def clip_index_nonneg min_def)
qed

section \<open>Insertion with a new id\<close>

text \<open>
  The empty set has unique ids and an agreeing mapping, and \<^verbatim>\<open>add\<close> with an id that is
  not yet in the set keeps both, so the sets that the analysis builds satisfy them.
\<close>

lemma init_invariants:
  "unique_ids h LoopPredictionSet_init \<and> map_agrees h LoopPredictionSet_init
   \<and> allocated h LoopPredictionSet_init"
  by (simp add: unique_ids_def map_agrees_def allocated_def LoopPredictionSet_init_def
      ids_of_def dict_keys_def)

lemma LoopPrediction_init_id:
  "LoopPrediction_init fs i sc pid r path mat = Inr obj \<Longrightarrow> lp_id obj = i"
  by (auto simp: LoopPrediction_init_def Let_def split: sum.splits)

lemma add_fresh_id:
  assumes u: "unique_ids h s" and m: "map_agrees h s" and al: "allocated h s"
    and fresh: "i \<notin> set (ids_of h (loop_predictions s))"
    and init: "LoopPrediction_init fs i sc pid r path mat = Inr obj"
  shows "\<exists>h' s' lp. add fs h s i sc pid r path mat = Inr (h', s', lp)
           \<and> objects h' lp = obj
           \<and> loop_predictions s' = loop_predictions s @ [lp]
           \<and> get s' i = Some lp
           \<and> unique_ids h' s' \<and> map_agrees h' s' \<and> allocated h' s'"
proof -
  let ?xs = "loop_predictions s"
  let ?lp = "next_ref h"
  let ?h' = "h\<lparr>objects := (objects h)(?lp := obj), next_ref := Suc ?lp\<rparr>"
  let ?s' = "\<lparr>loop_predictions = ?xs @ [?lp],
              loop_prediction_map = dict_setitem (loop_prediction_map s) i ?lp\<rparr>"
  have a: "add fs h s i sc pid r path mat = Inr (?h', ?s', ?lp)"
    using init by (simp add: add_def list_contains_id_False heap_new_def)
  have old: "objects ?h' x = objects h x" if "x \<in> set ?xs" for x
    using al that by (auto simp: allocated_def list_all_iff)
  have idn: "lp_id obj = i" using init by (rule LoopPrediction_init_id)
  have ids_old: "ids_of ?h' ?xs = ids_of h ?xs"
    using old by (simp add: ids_of_def)
  have ids: "ids_of ?h' (?xs @ [?lp]) = ids_of h ?xs @ [i]"
    using ids_old idn by (simp add: ids_of_def)
  have u': "unique_ids ?h' ?s'"
    using u fresh by (simp add: unique_ids_def ids)
  have dk: "distinct (dict_keys (loop_prediction_map ?s'))"
    using m by (simp add: map_agrees_def dict_keys_def dict_setitem_def distinct_update)
  have keys: "set (dict_keys (loop_prediction_map ?s')) = set (ids_of ?h' (loop_predictions ?s'))"
    using m by (auto simp: map_agrees_def dict_keys_def dict_setitem_def dom_update ids)
  have look_new: "get ?s' i = Some ?lp"
    by (simp add: get_def dict_get_def dict_setitem_def update_conv')
  have look_old: "get ?s' (lp_id (objects ?h' x)) = Some x" if x: "x \<in> set ?xs" for x
  proof -
    have "lp_id (objects h x) \<in> set (ids_of h ?xs)" using x by (simp add: ids_of_def)
    then have ne: "lp_id (objects h x) \<noteq> i" using fresh by auto
    have "get s (lp_id (objects h x)) = Some x"
      using m x by (simp add: map_agrees_def list_all_iff)
    then show ?thesis
      using ne old [OF x] by (simp add: get_def dict_get_def dict_setitem_def update_conv')
  qed
  have m': "map_agrees ?h' ?s'"
    using dk keys look_new look_old idn by (simp add: map_agrees_def list_all_iff)
  have al': "allocated ?h' ?s'"
    using al by (auto simp: allocated_def list_all_iff)
  have o: "objects ?h' ?lp = obj" by simp
  have l: "loop_predictions ?s' = ?xs @ [?lp]" by simp
  from a o l look_new u' m' al' show ?thesis by blast
qed

section \<open>Truncation\<close>

lemma dict_delitem_present:
  "k \<in> set (dict_keys m) \<Longrightarrow> dict_delitem m k = Inr (filter (\<lambda>(k', v). k' \<noteq> k) m)"
proof -
  assume "k \<in> set (dict_keys m)"
  then have "map_of m k \<noteq> None"
    by (simp add: dict_keys_def map_of_eq_None_iff)
  moreover have "AList.delete k m = filter (\<lambda>(k', v). k' \<noteq> k) m"
    by (auto simp: AList.delete_eq intro: filter_cong)
  ultimately show ?thesis by (simp add: dict_delitem_def)
qed

lemma dict_keys_filter:
  "dict_keys (filter (\<lambda>(k, v). P k) m) = filter P (dict_keys m)"
  by (induction m) (auto simp: dict_keys_def)

lemma map_of_filter_keys:
  "map_of (filter (\<lambda>(k, v). P k) m) k = (if P k then map_of m k else None)"
  by (induction m) auto

lemma delete_ids_filter:
  assumes "distinct (ids_of h ds)" "set (ids_of h ds) \<subseteq> set (dict_keys m)"
  shows "delete_ids h ds m = Inr (filter (\<lambda>(k, v). k \<notin> set (ids_of h ds)) m)"
  using assms
proof (induction ds arbitrary: m)
  case Nil
  then show ?case by (simp add: ids_of_def)
next
  case (Cons d ds)
  let ?k = "lp_id (objects h d)"
  let ?m' = "filter (\<lambda>(k', v). k' \<noteq> ?k) m"
  have k: "?k \<in> set (dict_keys m)" and notin: "?k \<notin> set (ids_of h ds)"
    and dist: "distinct (ids_of h ds)"
    using Cons.prems by (simp_all add: ids_of_def)
  have del: "dict_delitem m ?k = Inr ?m'"
    using k by (rule dict_delitem_present)
  have sub: "set (ids_of h ds) \<subseteq> set (dict_keys ?m')"
  proof
    fix i assume i: "i \<in> set (ids_of h ds)"
    then have "i \<in> set (dict_keys m)" using Cons.prems(2) by (auto simp: ids_of_def)
    moreover have "i \<noteq> ?k" using i notin by auto
    ultimately show "i \<in> set (dict_keys ?m')" by (simp add: dict_keys_filter)
  qed
  have "delete_ids h ds ?m' = Inr (filter (\<lambda>(k, v). k \<notin> set (ids_of h ds)) ?m')"
    using dist sub by (rule Cons.IH)
  moreover have "filter (\<lambda>(k, v). k \<notin> set (ids_of h ds)) ?m'
                   = filter (\<lambda>(k, v). k \<notin> set (ids_of h (d # ds))) m"
    by (auto simp: ids_of_def intro: filter_cong)
  ultimately show ?case using del by simp
qed

lemma sort_eq_of_distinct_set_eq:
  fixes xs ys :: "int list"
  assumes "distinct xs" "distinct ys" "set xs = set ys"
  shows "sort xs = sort ys"
proof -
  have "mset xs = mset ys"
    using assms by (simp add: set_eq_iff_mset_eq_distinct)
  then have "mset (sort ys) = mset xs" by simp
  then show ?thesis by (rule properties_for_sort) simp
qed

lemma ids_of_take_drop:
  "distinct (ids_of h xs) \<Longrightarrow>
     set (ids_of h (take n xs)) = set (ids_of h xs) - set (ids_of h (drop n xs))"
proof -
  assume d: "distinct (ids_of h xs)"
  have "map (\<lambda>lp. lp_id (objects h lp)) (take n xs @ drop n xs)
          = ids_of h (take n xs) @ ids_of h (drop n xs)"
    unfolding ids_of_def by (rule map_append)
  then have eq: "ids_of h xs = ids_of h (take n xs) @ ids_of h (drop n xs)"
    by (simp add: ids_of_def)
  have "distinct (ids_of h (take n xs) @ ids_of h (drop n xs))"
    using d eq by simp
  then have "set (ids_of h (take n xs)) \<inter> set (ids_of h (drop n xs)) = {}"
    by simp
  moreover have "set (ids_of h xs) = set (ids_of h (take n xs)) \<union> set (ids_of h (drop n xs))"
    by (subst eq) simp
  ultimately show ?thesis by blast
qed

lemma truncate_eq:
  assumes n: "0 \<le> n" and u: "unique_ids h s" and m: "map_agrees h s"
  shows "truncate h s n =
           Inr \<lparr>loop_predictions = take (nat n) (loop_predictions s),
                loop_prediction_map =
                  filter (\<lambda>(k, v). k \<notin> set (ids_of h (drop (nat n) (loop_predictions s))))
                    (loop_prediction_map s)\<rparr>"
proof -
  let ?xs = "loop_predictions s"
  let ?D = "set (ids_of h (drop (nat n) ?xs))"
  let ?m' = "filter (\<lambda>(k, v). k \<notin> ?D) (loop_prediction_map s)"
  have dxs: "distinct (ids_of h ?xs)" using u by (simp add: unique_ids_def)
  have "distinct (drop (nat n) (ids_of h ?xs))" "distinct (take (nat n) (ids_of h ?xs))"
    using dxs by simp_all
  then have ddrop: "distinct (ids_of h (drop (nat n) ?xs))"
    and dtake: "distinct (ids_of h (take (nat n) ?xs))"
    by (simp_all add: ids_of_def drop_map take_map)
  have keys: "set (dict_keys (loop_prediction_map s)) = set (ids_of h ?xs)"
    and dk: "distinct (dict_keys (loop_prediction_map s))"
    using m by (simp_all add: map_agrees_def)
  have sub: "?D \<subseteq> set (dict_keys (loop_prediction_map s))"
    unfolding keys by (auto simp: ids_of_def dest: in_set_dropD)
  have del: "delete_ids h (drop (nat n) ?xs) (loop_prediction_map s) = Inr ?m'"
    using ddrop sub by (rule delete_ids_filter)
  have "set (ids_of h (take (nat n) ?xs)) = set (dict_keys ?m')"
    using ids_of_take_drop [OF dxs, of "nat n"] keys by (auto simp: dict_keys_filter)
  moreover have "distinct (dict_keys ?m')"
    using dk by (simp add: dict_keys_filter)
  ultimately have "sort (ids_of h (take (nat n) ?xs)) = sort (dict_keys ?m')"
    using dtake by (intro sort_eq_of_distinct_set_eq)
  then have "sort (map (\<lambda>lp. lp_id (objects h lp)) (take (nat n) ?xs)) = sort (dict_keys ?m')"
    by (simp add: ids_of_def)
  then show ?thesis
    using del n by (simp add: truncate_def list_slice_from_drop list_slice_to_take)
qed

lemma truncate_get_kept:
  assumes u: "unique_ids h s" and m: "map_agrees h s"
    and lp: "lp \<in> set (take k (loop_predictions s))"
  shows "map_of (filter (\<lambda>(i, v). i \<notin> set (ids_of h (drop k (loop_predictions s))))
                   (loop_prediction_map s)) (lp_id (objects h lp)) = Some lp"
proof -
  let ?xs = "loop_predictions s"
  have dxs: "distinct (ids_of h ?xs)" using u by (simp add: unique_ids_def)
  have "lp_id (objects h lp) \<in> set (ids_of h (take k ?xs))"
    using lp by (simp add: ids_of_def)
  then have notin: "lp_id (objects h lp) \<notin> set (ids_of h (drop k ?xs))"
    using ids_of_take_drop [OF dxs, of k] by simp
  have "lp \<in> set ?xs" using lp by (rule in_set_takeD)
  then have "map_of (loop_prediction_map s) (lp_id (objects h lp)) = Some lp"
    using m by (simp add: map_agrees_def list_all_iff get_def dict_get_def)
  then show ?thesis using notin by (simp add: map_of_filter_keys)
qed

lemma truncate_get_dropped:
  assumes lp: "lp \<in> set (drop k (loop_predictions s))"
  shows "map_of (filter (\<lambda>(i, v). i \<notin> set (ids_of h (drop k (loop_predictions s))))
                   (loop_prediction_map s)) (lp_id (objects h lp)) = None"
  using lp by (simp add: map_of_filter_keys ids_of_def)

section \<open>Counting the records below a threshold\<close>

lemma count_rmsd_lt_counts:
  assumes "allow_failure \<or> list_all (\<lambda>lp. rmsd (objects h lp) \<noteq> None) lps"
  shows "count_rmsd_lt h lps x allow_failure strict c =
           Inr (c + length (filter (\<lambda>lp. rmsd (objects h lp) = None
                                          \<or> below_threshold x strict (objects h lp)) lps))"
  using assms
proof (induction lps arbitrary: c)
  case Nil
  then show ?case by simp
next
  case (Cons lp lps)
  have ih: "count_rmsd_lt h lps x allow_failure strict c' =
           Inr (c' + length (filter (\<lambda>lp. rmsd (objects h lp) = None
                                          \<or> below_threshold x strict (objects h lp)) lps))" for c'
    using Cons.IH Cons.prems by auto
  have ok: "\<not> (rmsd (objects h lp) = None \<and> \<not> allow_failure)"
    using Cons.prems by auto
  show ?case
  proof (cases "rmsd (objects h lp)")
    case None
    then show ?thesis using ok ih by (simp add: below_threshold_def)
  next
    case (Some d)
    then show ?thesis using ih by (simp add: below_threshold_def)
  qed
qed

lemma count_rmsd_lt_missing:
  assumes "\<exists>lp \<in> set lps. rmsd (objects h lp) = None"
  shows "count_rmsd_lt h lps x False strict c = Inl MissingRmsd"
  using assms
proof (induction lps arbitrary: c)
  case Nil
  then show ?case by simp
next
  case (Cons lp lps)
  show ?case
  proof (cases "rmsd (objects h lp) = None")
    case True
    then show ?thesis by simp
  next
    case False
    then have "\<exists>lp \<in> set lps. rmsd (objects h lp) = None" using Cons.prems by auto
    then have "count_rmsd_lt h lps x False strict c' = Inl MissingRmsd" for c'
      by (rule Cons.IH)
    then show ?thesis using False by simp
  qed
qed

lemma fraction_below_bounds:
  "0 \<le> fraction_below h lps x strict \<and> fraction_below h lps x strict \<le> 1"
proof -
  let ?c = "length (filter (\<lambda>lp. below_threshold x strict (objects h lp)) lps)"
  have "?c \<le> length lps" by (rule length_filter_le)
  then have "(of_nat ?c :: rat) \<le> of_nat (length lps)" by simp
  then have "(of_nat ?c :: rat) / of_nat (length lps) \<le> 1"
    by (cases "length lps = 0") (simp_all add: divide_le_eq_1)
  then show ?thesis by (simp add: fraction_below_def)
qed

section \<open>Sorting a set\<close>

lemma ids_distinct_refs:
  assumes "distinct (ids_of h xs)"
  shows "distinct xs" and "inj_on (\<lambda>lp. lp_id (objects h lp)) (set xs)"
  using assms by (simp_all add: ids_of_def distinct_map)

lemma set_sort_by_score:
  assumes wt: "well_typed fs h s" and u: "unique_ids h s" and nn: "no_nan h s"
  shows "LoopPredictionSet_sort_by_score fs h s =
           Inr (s\<lparr>loop_predictions :=
                    sort_key (\<lambda>lp. score_key (objects h lp)) (loop_predictions s)\<rparr>)"
proof -
  let ?xs = "loop_predictions s"
  have d: "distinct ?xs" and inj: "inj_on (\<lambda>lp. lp_id (objects h lp)) (set ?xs)"
    using u ids_distinct_refs [of h ?xs] by (simp_all add: unique_ids_def)
  have "list_sort (\<lambda>a b. LoopPrediction_sort_by_score fs (objects h a) (objects h b)) ?xs
          = Inr (sort_key (\<lambda>lp. score_key (objects h lp)) ?xs)"
  proof (rule list_sort_sort_key)
    show "distinct ?xs" by (rule d)
    show "inj_on (\<lambda>lp. score_key (objects h lp)) (set ?xs)"
      using inj by (auto simp: inj_on_def score_key_def)
    fix x y assume xy: "x \<in> set ?xs" "y \<in> set ?xs" "x \<noteq> y"
    then have "lp_id (objects h x) \<noteq> lp_id (objects h y)"
      using inj by (auto simp: inj_on_def)
    moreover have "check_types fs (objects h x) = Inr ()" "check_types fs (objects h y) = Inr ()"
      using wt xy by (simp_all add: well_typed_def list_all_iff)
    moreover have "not_nan (objects h x)" "not_nan (objects h y)"
      using nn xy by (simp_all add: no_nan_def list_all_iff)
    ultimately show "LoopPrediction_sort_by_score fs (objects h x) (objects h y)
                       = Inr (if score_key (objects h x) < score_key (objects h y) then - 1 else 1)"
      by (simp add: sort_by_score_key)
  qed
  then show ?thesis by (simp add: LoopPredictionSet_sort_by_score_def)
qed

lemma set_sort_by_rmsd:
  assumes wt: "well_typed fs h s" and u: "unique_ids h s" and nn: "no_nan h s"
  shows "LoopPredictionSet_sort_by_rmsd fs h s =
           Inr (s\<lparr>loop_predictions :=
                    sort_key (\<lambda>lp. rmsd_key (objects h lp)) (loop_predictions s)\<rparr>)"
proof -
  let ?xs = "loop_predictions s"
  have d: "distinct ?xs" and inj: "inj_on (\<lambda>lp. lp_id (objects h lp)) (set ?xs)"
    using u ids_distinct_refs [of h ?xs] by (simp_all add: unique_ids_def)
  have "list_sort (\<lambda>a b. LoopPrediction_sort_by_rmsd fs (objects h a) (objects h b)) ?xs
          = Inr (sort_key (\<lambda>lp. rmsd_key (objects h lp)) ?xs)"
  proof (rule list_sort_sort_key)
    show "distinct ?xs" by (rule d)
    show "inj_on (\<lambda>lp. rmsd_key (objects h lp)) (set ?xs)"
      using inj by (auto simp: inj_on_def rmsd_key_def)
    fix x y assume xy: "x \<in> set ?xs" "y \<in> set ?xs" "x \<noteq> y"
    then have "lp_id (objects h x) \<noteq> lp_id (objects h y)"
      using inj by (auto simp: inj_on_def)
    moreover have "check_types fs (objects h x) = Inr ()" "check_types fs (objects h y) = Inr ()"
      using wt xy by (simp_all add: well_typed_def list_all_iff)
    moreover have "not_nan (objects h x)" "not_nan (objects h y)"
      using nn xy by (simp_all add: no_nan_def list_all_iff)
    ultimately show "LoopPrediction_sort_by_rmsd fs (objects h x) (objects h y)
                       = Inr (if rmsd_key (objects h x) < rmsd_key (objects h y) then - 1 else 1)"
      by (simp add: sort_by_rmsd_key)
  qed
  then show ?thesis by (simp add: LoopPredictionSet_sort_by_rmsd_def)
qed

text \<open>The invariants depend on the elements of the sequence only, not on their order.\<close>

text \<open>The sort by score returns on every set of type-checked records with unique ids, whatever
  the comparisons answer: the comparator raises nothing there, and the result holds the
  same records.\<close>

lemma insert_cmp_returns:
  assumes "\<And>y. y \<in> set ys \<Longrightarrow> \<exists>c. cmp x y = Inr c"
  shows "\<exists>zs. insert_cmp cmp x ys = Inr zs \<and> mset zs = mset (x # ys)"
  using assms
proof (induction ys)
  case Nil
  then show ?case by simp
next
  case (Cons y ys)
  obtain c where c: "cmp x y = Inr c" using Cons.prems [of y] by auto
  obtain zs where zs: "insert_cmp cmp x ys = Inr zs" "mset zs = mset (x # ys)"
    using Cons.IH Cons.prems by auto
  show ?case using c zs by simp
qed

lemma list_sort_from_returns:
  assumes "distinct (done @ xs)"
    and "\<And>a b. a \<in> set (done @ xs) \<Longrightarrow> b \<in> set (done @ xs) \<Longrightarrow> a \<noteq> b \<Longrightarrow> \<exists>c. cmp a b = Inr c"
  shows "\<exists>zs. list_sort_from cmp done xs = Inr zs \<and> mset zs = mset (done @ xs)"
  using assms
proof (induction xs arbitrary: "done")
  case Nil
  then show ?case by simp
next
  case (Cons x xs)
  have "\<exists>c. cmp x y = Inr c" if "y \<in> set done" for y
    using that Cons.prems(1) by (intro Cons.prems(2)) auto
  then obtain d where d: "insert_cmp cmp x done = Inr d" "mset d = mset (x # done)"
    using insert_cmp_returns [of "done" cmp x] by auto
  have sd: "set d = insert x (set done)"
    using mset_eq_setD [OF d(2)] by simp
  have "distinct d" using d(2) Cons.prems(1)
    by (metis distinct.simps(2) distinct_append mset_eq_imp_distinct_iff disjoint_iff list.set_intros(1))
  then have dd: "distinct (d @ xs)"
    using Cons.prems(1) sd by auto
  have "\<exists>zs. list_sort_from cmp d xs = Inr zs \<and> mset zs = mset (d @ xs)"
  proof (rule Cons.IH [OF dd])
    fix a b assume "a \<in> set (d @ xs)" "b \<in> set (d @ xs)" "a \<noteq> b"
    then show "\<exists>c. cmp a b = Inr c"
      using sd by (intro Cons.prems(2)) auto
  qed
  then show ?case using d by auto
qed

lemma sort_by_score_returns:
  assumes "check_types fs a = Inr ()" "check_types fs b = Inr ()" "lp_id a \<noteq> lp_id b"
  shows "\<exists>c. LoopPrediction_sort_by_score fs a b = Inr c"
  using assms by (simp add: LoopPrediction_sort_by_score_def)

lemma set_sort_by_score_returns:
  assumes wt: "well_typed fs h s" and u: "unique_ids h s"
  shows "\<exists>s1. LoopPredictionSet_sort_by_score fs h s = Inr s1
           \<and> mset (loop_predictions s1) = mset (loop_predictions s)
           \<and> loop_prediction_map s1 = loop_prediction_map s"
proof -
  let ?xs = "loop_predictions s"
  let ?cmp = "\<lambda>a b. LoopPrediction_sort_by_score fs (objects h a) (objects h b)"
  have d: "distinct ?xs" and inj: "inj_on (\<lambda>lp. lp_id (objects h lp)) (set ?xs)"
    using u ids_distinct_refs [of h ?xs] by (simp_all add: unique_ids_def)
  have "\<exists>zs. list_sort_from ?cmp [] ?xs = Inr zs \<and> mset zs = mset ([] @ ?xs)"
  proof (rule list_sort_from_returns)
    show "distinct ([] @ ?xs)" using d by simp
  next
    fix a b assume ab: "a \<in> set ([] @ ?xs)" "b \<in> set ([] @ ?xs)" "a \<noteq> b"
    then have "lp_id (objects h a) \<noteq> lp_id (objects h b)"
      using inj by (auto simp: inj_on_def)
    moreover have "check_types fs (objects h a) = Inr ()" "check_types fs (objects h b) = Inr ()"
      using wt ab by (simp_all add: well_typed_def list_all_iff)
    ultimately show "\<exists>c. ?cmp a b = Inr c"
      by (intro sort_by_score_returns)
  qed
  then obtain zs where "list_sort ?cmp ?xs = Inr zs" "mset zs = mset ?xs"
    by (auto simp: list_sort_def)
  then show ?thesis by (simp add: LoopPredictionSet_sort_by_score_def)
qed

lemma well_typed_mset:
  "mset (loop_predictions t) = mset (loop_predictions s) \<Longrightarrow> well_typed fs h t = well_typed fs h s"
  using mset_eq_setD [of "loop_predictions t" "loop_predictions s"]
  by (simp add: well_typed_def list_all_iff)

lemma no_nan_mset:
  "mset (loop_predictions t) = mset (loop_predictions s) \<Longrightarrow> no_nan h t = no_nan h s"
  using mset_eq_setD [of "loop_predictions t" "loop_predictions s"]
  by (simp add: no_nan_def list_all_iff)

lemma unique_ids_mset:
  assumes "mset (loop_predictions t) = mset (loop_predictions s)"
  shows "unique_ids h t = unique_ids h s"
proof -
  have "mset (ids_of h (loop_predictions t)) = mset (ids_of h (loop_predictions s))"
    using assms by (simp add: ids_of_def)
  then show ?thesis
    unfolding unique_ids_def by (metis mset_eq_imp_distinct_iff)
qed

lemma map_agrees_mset:
  assumes "mset (loop_predictions t) = mset (loop_predictions s)"
    and "loop_prediction_map t = loop_prediction_map s"
  shows "map_agrees h t = map_agrees h s"
proof -
  have "set (loop_predictions t) = set (loop_predictions s)"
    using assms(1) by (rule mset_eq_setD)
  then show ?thesis
    using assms(2) by (simp add: map_agrees_def list_all_iff ids_of_def get_def)
qed

lemma sort_key_canonical:
  assumes "mset ys = mset xs" and "inj_on f (set xs)"
  shows "sort_key f ys = sort_key f xs"
proof (rule sort_key_inj_key_eq)
  show "mset ys = mset (sort_key f xs)" using assms(1) by simp
  show "inj_on f (set ys)" using assms(2) mset_eq_setD [OF assms(1)] by simp
  show "sorted (map f (sort_key f xs))" by simp
qed

lemmas example_defs = example_heap_def heap_of_def example_set_def shuffled_set_def prediction_def
  well_typed_def unique_ids_def ids_of_def check_types_def

section \<open>The statistics of one case\<close>

lemma fraction_with_rmsd_lt_eq:
  assumes "loop_predictions s \<noteq> []" and "all_have_rmsd h s"
  shows "fraction_with_rmsd_lt h s x allow_failure strict
           = Inr (fraction_below h (loop_predictions s) x strict)"
proof -
  have all: "list_all (\<lambda>lp. rmsd (objects h lp) \<noteq> None) (loop_predictions s)"
    using assms(2) by (simp add: all_have_rmsd_def)
  then have "filter (\<lambda>lp. rmsd (objects h lp) = None \<or> below_threshold x strict (objects h lp))
               (loop_predictions s)
             = filter (\<lambda>lp. below_threshold x strict (objects h lp)) (loop_predictions s)"
    by (intro filter_cong) (auto simp: list_all_iff)
  then have "count_rmsd_lt h (loop_predictions s) x allow_failure strict 0
          = Inr (length (filter (\<lambda>lp. below_threshold x strict (objects h lp)) (loop_predictions s)))"
    using count_rmsd_lt_counts [of allow_failure h "loop_predictions s" x strict 0] all by simp
  then show ?thesis
    using assms(1) by (simp add: fraction_with_rmsd_lt_def fraction_below_def)
qed

lemma top_x_scan_mem: "top_x_scan h ts acc \<in> insert acc (rmsd_score h ` set ts)"
proof (induction ts arbitrary: acc)
  case Nil
  then show ?case by (cases acc) simp
next
  case (Cons t ts)
  obtain r sc where acc: "acc = (r, sc)" by (cases acc)
  show ?case
    using Cons.IH [of "(r, sc)"] Cons.IH [of "rmsd_score h t"]
    by (auto simp: acc rmsd_score_def)
qed

lemma pair_key_less:
  assumes "pair_ok (r, sc)" "pair_ok (r', sc')"
  shows "py_lt r r' \<or> (py_eq r r' \<and> num_lt sc sc') \<longleftrightarrow> pair_key (r, sc) < pair_key (r', sc')"
proof -
  have "pair_key (r, sc) < pair_key (r', sc') \<longleftrightarrow>
          map_option num_key r < map_option num_key r'
          \<or> (map_option num_key r = map_option num_key r' \<and> num_key sc < num_key sc')"
    unfolding pair_key_def fst_conv snd_conv by (rule lex2_less)
  then show ?thesis
    using assms by (simp add: pair_ok_def py_lt_key py_eq_key num_lt_key)
qed

lemma pair_key_le:
  assumes "pair_ok (r, sc)" "pair_ok (r', sc')"
  shows "pair_key (r, sc) \<le> pair_key (r', sc') \<longleftrightarrow> py_lt r r' \<or> (r = r' \<and> num_le sc sc')"
proof -
  have "pair_key (r, sc) \<le> pair_key (r', sc') \<longleftrightarrow>
          map_option num_key r < map_option num_key r'
          \<or> (map_option num_key r = map_option num_key r' \<and> num_key sc \<le> num_key sc')"
    unfolding pair_key_def fst_conv snd_conv by (rule lex2_le)
  then show ?thesis
    using assms by (simp add: pair_ok_def py_lt_key opt_key_eq num_le_key)
qed

lemma top_x_scan_min:
  assumes "\<And>lp. lp \<in> set ts \<Longrightarrow> not_nan (objects h lp)" and "pair_ok acc"
  shows "pair_key (top_x_scan h ts acc)
           = fold (\<lambda>lp a. min (pair_key (rmsd_score h lp)) a) ts (pair_key acc)"
  using assms
proof (induction ts arbitrary: acc)
  case Nil
  then show ?case by (cases acc) simp
next
  case (Cons t ts)
  obtain r sc where acc: "acc = (r, sc)" by (cases acc)
  have okt: "pair_ok (rmsd (objects h t), score (objects h t))"
    using Cons.prems(1) [of t] by (simp add: pair_ok_def not_nan_def)
  have okacc: "pair_ok (r, sc)" using Cons.prems(2) acc by simp
  have rest: "\<And>lp. lp \<in> set ts \<Longrightarrow> not_nan (objects h lp)"
    using Cons.prems(1) by simp
  have c: "(py_lt (rmsd (objects h t)) r \<or> (py_eq (rmsd (objects h t)) r \<and> num_lt (score (objects h t)) sc))
          \<longleftrightarrow> pair_key (rmsd_score h t) < pair_key (r, sc)"
    using pair_key_less [OF okt okacc] by (simp add: rmsd_score_def)
  have step: "top_x_scan h (t # ts) acc =
                top_x_scan h ts (if pair_key (rmsd_score h t) < pair_key (r, sc)
                                 then rmsd_score h t else (r, sc))"
    using c by (auto simp: acc rmsd_score_def)
  show ?case
  proof (cases "pair_key (rmsd_score h t) < pair_key (r, sc)")
    case True
    then have "min (pair_key (rmsd_score h t)) (pair_key (r, sc)) = pair_key (rmsd_score h t)"
      by simp
    moreover have "pair_key (top_x_scan h ts (rmsd_score h t))
           = fold (\<lambda>lp a. min (pair_key (rmsd_score h lp)) a) ts (pair_key (rmsd_score h t))"
      using rest okt by (intro Cons.IH) (simp_all add: rmsd_score_def)
    ultimately show ?thesis
      unfolding step using True by (simp add: acc)
  next
    case False
    then have "min (pair_key (rmsd_score h t)) (pair_key (r, sc)) = pair_key (r, sc)"
      by simp
    moreover have "pair_key (top_x_scan h ts (r, sc))
           = fold (\<lambda>lp a. min (pair_key (rmsd_score h lp)) a) ts (pair_key (r, sc))"
      using rest okacc by (intro Cons.IH)
    ultimately show ?thesis
      unfolding step using False by (simp add: acc)
  qed
qed

lemma top_x_scan_Min:
  assumes "\<And>lp. lp \<in> set ts \<Longrightarrow> not_nan (objects h lp)" and "pair_ok acc"
  shows "pair_key (top_x_scan h ts acc)
           = Min (insert (pair_key acc) ((\<lambda>lp. pair_key (rmsd_score h lp)) ` set ts))"
proof -
  have "fold (\<lambda>lp a. min (pair_key (rmsd_score h lp)) a) ts (pair_key acc)
          = fold min (map (\<lambda>lp. pair_key (rmsd_score h lp)) ts) (pair_key acc)"
    by (simp add: fold_map comp_def)
  also have "\<dots> = Min (set (pair_key acc # map (\<lambda>lp. pair_key (rmsd_score h lp)) ts))"
    by (rule Min.set_eq_fold [symmetric])
  finally show ?thesis using assms by (simp add: top_x_scan_min)
qed

lemma print_predictions_ok:
  "list_all (\<lambda>lp. check_types fs (objects h lp) = Inr ()) lps \<Longrightarrow> print_predictions fs h lps = Inr ()"
  by (induction lps) (simp_all add: print_prediction_def)

lemma percent_subangstrom_rows_eq:
  assumes "\<And>k. k \<in> set ks \<Longrightarrow> 1 \<le> k" and "loop_predictions s \<noteq> []" and "all_have_rmsd h s"
  shows "percent_subangstrom_rows h s ks
           = Inr (map (\<lambda>k. (k, 100 * fraction_below h (take (nat k) (loop_predictions s)) (Num 1) True)) ks)"
  using assms(1)
proof (induction ks)
  case Nil
  then show ?case by simp
next
  case (Cons k ks)
  let ?t = "\<lparr>loop_predictions = take (nat k) (loop_predictions s),
             loop_prediction_map =
               fold (\<lambda>lp m. dict_setitem m (lp_id (objects h lp)) lp)
                 (take (nat k) (loop_predictions s)) []\<rparr>"
  have k: "1 \<le> k" using Cons.prems by simp
  then have sl: "getitem_slice h s None (Some k) None = Inr ?t"
    by (simp add: getitem_slice_prefix from_list_eq)
  have ne: "loop_predictions ?t \<noteq> []" using k assms(2) by simp
  have "all_have_rmsd h ?t"
    using assms(3) by (auto simp: all_have_rmsd_def list_all_iff dest: in_set_takeD)
  then have fr: "fraction_with_rmsd_lt h ?t (Num 1) False True
              = Inr (fraction_below h (loop_predictions ?t) (Num 1) True)"
    using ne by (intro fraction_with_rmsd_lt_eq)
  have "percent_subangstrom_rows h s ks
           = Inr (map (\<lambda>k. (k, 100 * fraction_below h (take (nat k) (loop_predictions s)) (Num 1) True)) ks)"
    using Cons.IH Cons.prems by simp
  then show ?case using sl fr by simp
qed

lemma sorted_score_key_score:
  assumes "sorted (map (\<lambda>lp. score_key (objects h lp)) zs)" and "lp \<in> set zs" and "zs \<noteq> []"
  shows "num_key (score (objects h lp)) \<le> num_key (score (objects h (last zs)))"
proof -
  obtain i where i: "i < length zs" "zs ! i = lp"
    using assms(2) by (auto simp: in_set_conv_nth)
  have "map (\<lambda>lp. score_key (objects h lp)) zs ! i
          \<le> map (\<lambda>lp. score_key (objects h lp)) zs ! (length zs - 1)"
    using assms(1) i(1) by (intro sorted_nth_mono) simp_all
  then have "score_key (objects h lp) \<le> score_key (objects h (last zs))"
    using i assms(3) by (simp add: last_conv_nth)
  then show ?thesis
    unfolding score_key_def by (auto simp: lex2_le)
qed

lemma population_props:
  assumes "0 \<le> expectn" "expectn \<le> int (length (loop_predictions s))"
  shows "length (population h s expectn) = nat expectn"
    and "sorted (map (\<lambda>lp. score_key (objects h lp)) (population h s expectn))"
    and "set (population h s expectn) \<subseteq> set (loop_predictions s)"
proof -
  let ?f = "\<lambda>lp. score_key (objects h lp)"
  show "length (population h s expectn) = nat expectn"
    using assms by (simp add: population_def score_order_def)
  have "sorted (take (nat expectn) (map ?f (sort_key ?f (loop_predictions s))))"
    by (intro sorted_wrt_take) simp
  then show "sorted (map ?f (population h s expectn))"
    by (simp add: population_def score_order_def take_map)
  show "set (population h s expectn) \<subseteq> set (loop_predictions s)"
    by (auto simp: population_def score_order_def dest: in_set_takeD)
qed

lemma extract_analysis_data_case_succeeds:
  assumes wt: "well_typed fs h s" and u: "unique_ids h s" and m: "map_agrees h s"
    and r: "all_have_rmsd h s" and nn: "no_nan h s"
    and tx1: "1 \<le> top_x" and tx2: "top_x \<le> expectn"
    and en: "expectn \<le> int (length (loop_predictions s))"
  shows "\<exists>st. extract_analysis_data_case fs h s expectn top_x = Inr st
           \<and> loop_predictions (top_x_loop_prediction_set st)
               = take (nat top_x) (population h s expectn)
           \<and> median_scoring_structure st = population h s expectn ! nat (expectn div 2)
           \<and> best_scoring_structure st = population h s expectn ! 0
           \<and> worst_scoring_structure st = last (population h s expectn)
           \<and> best_score st = score (objects h (population h s expectn ! 0))
           \<and> worst_score st = score (objects h (last (population h s expectn)))
           \<and> top_1_rmsd st = rmsd (objects h (population h s expectn ! 0))
           \<and> (top_x_rmsd st, top_x_score st)
               \<in> rmsd_score h ` set (take (nat top_x) (population h s expectn))
           \<and> pair_key (top_x_rmsd st, top_x_score st)
               = Min ((\<lambda>lp. pair_key (rmsd_score h lp))
                       ` set (take (nat top_x) (population h s expectn)))
           \<and> loop_predictions (loop_prediction_set st) = rmsd_order h (population h s expectn)"
proof -
  let ?f = "\<lambda>lp. score_key (objects h lp)" and ?g = "\<lambda>lp. rmsd_key (objects h lp)"
  define ys where "ys = score_order h (loop_predictions s)"
  define zs where "zs = population h s expectn"
  define ts where "ts = take (nat top_x) zs"
  define s1 where "s1 = s\<lparr>loop_predictions := ys\<rparr>"
  define m2 where "m2 = filter (\<lambda>(k, v). k \<notin> set (ids_of h (drop (nat expectn) ys)))
                           (loop_prediction_map s)"
  define s2 where "s2 = \<lparr>loop_predictions = zs, loop_prediction_map = m2\<rparr>"
  define tset where "tset = \<lparr>loop_predictions = ts,
      loop_prediction_map = fold (\<lambda>lp m. dict_setitem m (lp_id (objects h lp)) lp) ts []\<rparr>"
  define s4 where "s4 = s2\<lparr>loop_predictions := rmsd_order h zs\<rparr>"
  define best where "best = zs ! 0"
  define txm where "txm = top_x_scan h ts (rmsd_score h best)"
  have zs: "zs = take (nat expectn) ys"
    by (simp add: zs_def ys_def population_def)
  have e1: "1 \<le> expectn" using tx1 tx2 by simp
  have len_ys: "length ys = length (loop_predictions s)" by (simp add: ys_def score_order_def)
  have len_zs: "length zs = nat expectn" using en by (simp add: zs len_ys)
  have ilen: "int (length zs) = expectn" using len_zs e1 by simp
  have zs_ne: "zs \<noteq> []" using len_zs e1 by auto
  have len_ts: "length ts = nat top_x" using tx2 by (simp add: ts_def len_zs)
  have ts_ne: "ts \<noteq> []" using len_ts tx1 by auto
  have ts_sub: "set ts \<subseteq> set zs" by (auto simp: ts_def dest: in_set_takeD)
  have zs_sub: "set zs \<subseteq> set (loop_predictions s)"
    by (auto simp: zs ys_def score_order_def dest: in_set_takeD)
  have best_ts: "best = ts ! 0" using tx1 by (simp add: best_def ts_def)
  have best_in: "best \<in> set ts" using ts_ne by (simp add: best_ts)
  \<comment> \<open>the first sort and the truncation\<close>
  have st1: "LoopPredictionSet_sort_by_score fs h s = Inr s1"
    using set_sort_by_score [OF wt u nn] by (simp add: s1_def ys_def score_order_def)
  have ms1: "mset (loop_predictions s1) = mset (loop_predictions s)"
    by (simp add: s1_def ys_def score_order_def)
  have u1: "unique_ids h s1" using u unique_ids_mset [OF ms1] by simp
  have m1: "map_agrees h s1"
    using m map_agrees_mset [OF ms1, of h] by (simp add: s1_def)
  have "truncate h s1 expectn =
           Inr \<lparr>loop_predictions = take (nat expectn) (loop_predictions s1),
                loop_prediction_map =
                  filter (\<lambda>(k, v). k \<notin> set (ids_of h (drop (nat expectn) (loop_predictions s1))))
                    (loop_prediction_map s1)\<rparr>"
    using e1 u1 m1 by (intro truncate_eq) simp_all
  then have st2: "truncate h s1 expectn = Inr s2"
    by (simp add: s1_def s2_def zs m2_def)
  have l2: "loop_predictions s2 = zs" by (simp add: s2_def)
  \<comment> \<open>the invariants of the truncated set\<close>
  have wt2: "well_typed fs h s2"
    using wt zs_sub by (auto simp: well_typed_def list_all_iff l2)
  have r2: "all_have_rmsd h s2"
    using r zs_sub by (auto simp: all_have_rmsd_def list_all_iff l2)
  have nn2: "no_nan h s2"
    using nn zs_sub by (auto simp: no_nan_def list_all_iff l2)
  have nnz: "not_nan (objects h lp)" if "lp \<in> set zs" for lp
    using nn2 that by (simp add: no_nan_def list_all_iff l2)
  have "distinct (take (nat expectn) (ids_of h ys))"
    using u1 by (simp add: unique_ids_def s1_def)
  then have u2: "unique_ids h s2"
    by (simp add: unique_ids_def l2 zs ids_of_def take_map)
  have sorted_zs: "sorted (map ?f zs)"
  proof -
    have "sorted (take (nat expectn) (map ?f ys))"
      by (intro sorted_wrt_take) (simp add: ys_def score_order_def)
    then show ?thesis by (simp add: zs take_map)
  qed
  \<comment> \<open>slices and single indices\<close>
  have st3: "getitem_slice h s2 None (Some top_x) None = Inr tset"
    using tx1 by (simp add: getitem_slice_prefix from_list_eq l2 tset_def ts_def)
  have lt: "loop_predictions tset = ts" by (simp add: tset_def)
  have half: "0 \<le> expectn div 2" "expectn div 2 < expectn" using e1 by simp_all
  have st4: "getitem_int s2 (expectn div 2) = Inr (zs ! nat (expectn div 2))"
    using half by (simp add: getitem_int_def list_getitem_def l2 ilen)
  have st5: "getitem_int s2 0 = Inr best"
    using e1 by (simp add: getitem_int_def list_getitem_def l2 ilen best_def)
  have "nat (expectn - 1) = length zs - 1" using len_zs by simp
  then have st6: "getitem_int s2 (- 1) = Inr (last zs)"
    using e1 zs_ne by (simp add: getitem_int_def list_getitem_def l2 ilen last_conv_nth)
  have st7: "getitem_int tset 0 = Inr best"
    using tx1 len_ts by (simp add: getitem_int_def list_getitem_def lt best_ts)
  \<comment> \<open>printing\<close>
  have chk: "check_types fs (objects h lp) = Inr ()" if "lp \<in> set zs" for lp
    using wt2 that by (simp add: well_typed_def list_all_iff l2)
  have st8: "print_predictions fs h ts = Inr ()"
    using ts_sub chk by (intro print_predictions_ok) (auto simp: list_all_iff)
  have st9: "print_prediction fs h best = Inr ()"
    "print_prediction fs h (zs ! nat (expectn div 2)) = Inr ()"
    "print_prediction fs h (last zs) = Inr ()"
    using chk zs_ne half len_zs best_in ts_sub by (auto simp: print_prediction_def)
  \<comment> \<open>the second sort by score changes nothing\<close>
  have "sort_key ?f zs = zs" using sorted_zs by (rule sort_key_id_if_sorted)
  then have st10: "LoopPredictionSet_sort_by_score fs h s2 = Inr s2"
    using set_sort_by_score [OF wt2 u2 nn2] by (simp add: l2 s2_def)
  \<comment> \<open>the fractions\<close>
  have ne2: "loop_predictions s2 \<noteq> []" using zs_ne by (simp add: l2)
  have "percent_subangstrom_rows h s2 [1 .. expectn]
          = Inr (map (\<lambda>k. (k, 100 * fraction_below h (take (nat k) (loop_predictions s2)) (Num 1) True))
                   [1 .. expectn])"
    using ne2 r2 by (intro percent_subangstrom_rows_eq) simp_all
  then have st11: "percent_subangstrom_rows h s2 [1 .. expectn]
          = Inr (map (\<lambda>k. (k, 100 * fraction_below h (take (nat k) zs) (Num 1) True))
                   [1 .. expectn])"
    by (simp add: l2)
  have st12: "fraction_with_rmsd_lt h s2 (Num 1) False True = Inr (fraction_below h zs (Num 1) True)"
    using fraction_with_rmsd_lt_eq [OF ne2 r2] by (simp add: l2)
  have "all_have_rmsd h tset"
    using r2 ts_sub by (auto simp: all_have_rmsd_def list_all_iff l2 lt)
  moreover have "loop_predictions tset \<noteq> []" using ts_ne by (simp add: lt)
  ultimately have st13: "fraction_with_rmsd_lt h tset (Num 1) False True
                           = Inr (fraction_below h ts (Num 1) True)"
    using fraction_with_rmsd_lt_eq [of tset h] by (simp add: lt)
  \<comment> \<open>the sort by RMSD and the closest record\<close>
  have st14: "LoopPredictionSet_sort_by_rmsd fs h s2 = Inr s4"
    using set_sort_by_rmsd [OF wt2 u2 nn2] by (simp add: l2 s4_def rmsd_order_def)
  have l4: "loop_predictions s4 = rmsd_order h zs" by (simp add: s4_def)
  have "length (rmsd_order h zs) = length zs" by (simp add: rmsd_order_def)
  then have "rmsd_order h zs \<noteq> []" using zs_ne by auto
  then have st15: "getitem_int s4 0 = Inr (rmsd_order h zs ! 0)"
    by (simp add: getitem_int_def list_getitem_def l4)
  \<comment> \<open>the scan and the two assertions\<close>
  let ?K = "(\<lambda>lp. pair_key (rmsd_score h lp)) ` set ts"
  have nnt: "\<And>lp. lp \<in> set ts \<Longrightarrow> not_nan (objects h lp)"
    using nnz ts_sub by auto
  have ok: "pair_ok (rmsd_score h lp)" if "lp \<in> set ts" for lp
    using nnt [OF that] by (simp add: pair_ok_def rmsd_score_def not_nan_def)
  have scan: "top_x_scan h ts (rmsd (objects h best), score (objects h best)) = txm"
    by (simp add: txm_def rmsd_score_def)
  have "txm \<in> insert (rmsd_score h best) (rmsd_score h ` set ts)"
    unfolding txm_def by (rule top_x_scan_mem)
  then have mem: "txm \<in> rmsd_score h ` set ts" using best_in by auto
  then obtain lp where lp: "lp \<in> set ts" "txm = rmsd_score h lp" by auto
  have "insert (pair_key (rmsd_score h best)) ?K = ?K" using best_in by auto
  then have key: "pair_key txm = Min ?K"
    using top_x_scan_Min [OF nnt ok [OF best_in]] by (simp add: txm_def)
  have fin: "finite ?K" by simp
  have "num_key (snd txm) = num_key (score (objects h lp))"
    using lp(2) by (simp add: rmsd_score_def)
  also have "\<dots> \<le> num_key (score (objects h (last zs)))"
    using sorted_zs lp(1) ts_sub zs_ne by (intro sorted_score_key_score) auto
  finally have "num_key (snd txm) \<le> num_key (score (objects h (last zs)))" .
  moreover have "snd txm \<noteq> NaN"
    using ok [OF lp(1)] lp(2) by (simp add: pair_ok_def)
  moreover have "score (objects h (last zs)) \<noteq> NaN"
    using nnz [of "last zs"] zs_ne by (simp add: not_nan_def)
  ultimately have a1: "num_le (snd txm) (score (objects h (last zs)))"
    by (simp add: num_le_key)
  have "pair_key txm \<le> pair_key (rmsd_score h best)"
    unfolding key using fin best_in by (intro Min_le) simp_all
  then have "map_option num_key (fst txm) \<le> map_option num_key (rmsd (objects h best))"
    by (auto simp: pair_key_def rmsd_score_def lex2_le)
  moreover have "fst txm \<noteq> Some NaN"
    using ok [OF lp(1)] lp(2) by (simp add: pair_ok_def)
  moreover have "rmsd (objects h best) \<noteq> Some NaN"
    using nnt [OF best_in] by (simp add: not_nan_def)
  ultimately have a2: "py_le (fst txm) (rmsd (objects h best))"
    by (simp add: py_le_key)
  obtain txr txs where txm: "txm = (txr, txs)" by (cases txm)
  have scan': "top_x_scan h ts (rmsd (objects h best), score (objects h best)) = (txr, txs)"
    using scan txm by simp
  have a1': "num_le txs (score (objects h (last zs)))" and a2': "py_le txr (rmsd (objects h best))"
    using a1 a2 txm by simp_all
  have "extract_analysis_data_case fs h s expectn top_x =
     Inr \<lparr>top_x_loop_prediction_set = tset,
          median_scoring_structure = zs ! nat (expectn div 2),
          best_scoring_structure = best,
          worst_scoring_structure = last zs,
          best_score = score (objects h best),
          worst_score = score (objects h (last zs)),
          percent_subangstrom_by_top_x =
            map (\<lambda>k. (k, 100 * fraction_below h (take (nat k) zs) (Num 1) True)) [1 .. expectn],
          total_percent_subangstrom = 100 * fraction_below h zs (Num 1) True,
          top_x_percent_subangstrom = 100 * fraction_below h ts (Num 1) True,
          closest_rmsd = rmsd (objects h (rmsd_order h zs ! 0)),
          closest_score = score (objects h (rmsd_order h zs ! 0)),
          top_1_rmsd = rmsd (objects h best),
          top_x_rmsd = txr,
          top_x_score = txs,
          loop_prediction_set = s4\<rparr>"
    unfolding extract_analysis_data_case_def
    by (simp only: tx2 st1 st2 l2 ilen st3 st4 st5 st6 st7 lt st8 st9 st10 st11 st12 st13 st14
        st15 scan' a1' a2' sum.case prod.case not_True_eq_False not_not if_True if_False
        refl simp_thms)
  then show ?thesis
    using txm mem key
    by (simp add: lt l4 zs_def [symmetric] ts_def [symmetric] best_def)
qed

lemmas benchmark_defs = benchmark_heap_def benchmark_set_def heap_of_def prediction_def
  well_typed_def unique_ids_def ids_of_def check_types_def map_agrees_def all_have_rmsd_def
  dict_keys_def get_def dict_get_def

section \<open>The claims\<close>

text \<open>
  Claim C1 says that \<^verbatim>\<open>add\<close> with an id already in the set fails and leaves the set as it
  was. The assertion in \<^verbatim>\<open>add\<close> looks the id up in the list of prediction objects, where
  it never is, so the second \<^verbatim>\<open>add\<close> of id 1 below succeeds: the sequence grows to two
  records with the same id and the lookup mapping now maps the id to the new record.
\<close>

theorem add_accepts_duplicate_id:
  "add (\<lambda>p. True) empty_heap LoopPredictionSet_init 1 (Num 0) None None None None
     = Inr (\<lparr>objects = (objects empty_heap)(0 := prediction 1 (Num 0) None), next_ref = 1\<rparr>,
            \<lparr>loop_predictions = [0], loop_prediction_map = [(1, 0)]\<rparr>, 0)
   \<and> get \<lparr>loop_predictions = [0], loop_prediction_map = [(1, 0)]\<rparr> 1 = Some 0
   \<and> add (\<lambda>p. True)
         \<lparr>objects = (objects empty_heap)(0 := prediction 1 (Num 0) None), next_ref = 1\<rparr>
         \<lparr>loop_predictions = [0], loop_prediction_map = [(1, 0)]\<rparr> 1 (Num 5) None None None None
     = Inr (\<lparr>objects = (objects empty_heap)
                (0 := prediction 1 (Num 0) None, 1 := prediction 1 (Num 5) None),
              next_ref = 2\<rparr>,
            \<lparr>loop_predictions = [0, 1], loop_prediction_map = [(1, 1)]\<rparr>, 1)"
  by (simp add: add_def list_contains_id_def py_eq_object_id_def LoopPrediction_init_def
      check_types_def heap_new_def LoopPredictionSet_init_def dict_setitem_def prediction_def
      empty_heap_def get_def dict_get_def)

text \<open>
  Claim C2 says that with \<^verbatim>\<open>allow_failure\<close> set the records without a deviation are left
  out of the count. On a set of one record without a deviation the method returns 1, not 0:
  Python 2 evaluates \<^verbatim>\<open>None < 1.0\<close> to \<^verbatim>\<open>True\<close>, so the record is counted as if its
  deviation were below the threshold.
\<close>

theorem fraction_with_rmsd_lt_counts_missing:
  "fraction_with_rmsd_lt empty_heap \<lparr>loop_predictions = [0], loop_prediction_map = [(0, 0)]\<rparr>
     (Num 1) True True = Inr 1
   \<and> fraction_below empty_heap [0] (Num 1) True = 0
   \<and> rmsd (objects empty_heap 0) = None"
  by code_simp

text \<open>
  Claim C3, amended to records without NaN. On every pair of type-checked records with
  distinct ids of which no score and no deviation is NaN each comparator answers \<open>-1\<close> or
  \<open>1\<close>, never an error and never \<open>0\<close>; by-score answers \<open>-1\<close> exactly when the first
  record has the lower score, or the same score and the lower deviation, or the same score
  and deviation and the lower id; it is asymmetric and transitive, so a strict total order.
  By-deviation is the same with deviation before score. A missing deviation counts as lower
  than every number, as Python 2 compares \<^verbatim>\<open>None\<close>.
\<close>

theorem comparators_strict_total_order:
  assumes "check_types fs a = Inr ()" "check_types fs b = Inr ()" "check_types fs c = Inr ()"
    and "lp_id a \<noteq> lp_id b" "lp_id b \<noteq> lp_id c" "lp_id a \<noteq> lp_id c"
    and "not_nan a" "not_nan b" "not_nan c"
  shows
    "(LoopPrediction_sort_by_score fs a b = Inr (- 1) \<or> LoopPrediction_sort_by_score fs a b = Inr 1)
     \<and> (LoopPrediction_sort_by_score fs a b = Inr (- 1) \<longleftrightarrow>
          num_lt (score a) (score b)
          \<or> (score a = score b \<and>
              (py_lt (rmsd a) (rmsd b) \<or> (rmsd a = rmsd b \<and> lp_id a < lp_id b))))
     \<and> (LoopPrediction_sort_by_score fs a b = Inr (- 1) \<longleftrightarrow>
          LoopPrediction_sort_by_score fs b a = Inr 1)
     \<and> (LoopPrediction_sort_by_score fs a b = Inr (- 1) \<and>
          LoopPrediction_sort_by_score fs b c = Inr (- 1) \<longrightarrow>
          LoopPrediction_sort_by_score fs a c = Inr (- 1))
     \<and> (LoopPrediction_sort_by_rmsd fs a b = Inr (- 1) \<or> LoopPrediction_sort_by_rmsd fs a b = Inr 1)
     \<and> (LoopPrediction_sort_by_rmsd fs a b = Inr (- 1) \<longleftrightarrow>
          py_lt (rmsd a) (rmsd b)
          \<or> (rmsd a = rmsd b \<and>
              (num_lt (score a) (score b) \<or> (score a = score b \<and> lp_id a < lp_id b))))
     \<and> (LoopPrediction_sort_by_rmsd fs a b = Inr (- 1) \<longleftrightarrow>
          LoopPrediction_sort_by_rmsd fs b a = Inr 1)
     \<and> (LoopPrediction_sort_by_rmsd fs a b = Inr (- 1) \<and>
          LoopPrediction_sort_by_rmsd fs b c = Inr (- 1) \<longrightarrow>
          LoopPrediction_sort_by_rmsd fs a c = Inr (- 1))"
proof -
  note sk = sort_by_score_key [OF assms(1) assms(2) assms(4) assms(7) assms(8)]
    sort_by_score_key [OF assms(2) assms(1) assms(4) [symmetric] assms(8) assms(7)]
    sort_by_score_key [OF assms(2) assms(3) assms(5) assms(8) assms(9)]
    sort_by_score_key [OF assms(1) assms(3) assms(6) assms(7) assms(9)]
  note rk = sort_by_rmsd_key [OF assms(1) assms(2) assms(4) assms(7) assms(8)]
    sort_by_rmsd_key [OF assms(2) assms(1) assms(4) [symmetric] assms(8) assms(7)]
    sort_by_rmsd_key [OF assms(2) assms(3) assms(5) assms(8) assms(9)]
    sort_by_rmsd_key [OF assms(1) assms(3) assms(6) assms(7) assms(9)]
  have n: "score a \<noteq> NaN" "score b \<noteq> NaN" "rmsd a \<noteq> Some NaN" "rmsd b \<noteq> Some NaN"
    using assms(7,8) by (simp_all add: not_nan_def)
  note keys = num_lt_key [OF n(1,2)] num_key_eq [OF n(1,2)] py_lt_key [OF n(3,4)]
    opt_key_eq [OF n(3,4)]
  have ne: "score_key a \<noteq> score_key b" "rmsd_key a \<noteq> rmsd_key b"
    using assms(4) by (simp_all add: score_key_neq rmsd_key_neq)
  have s1: "LoopPrediction_sort_by_score fs a b = Inr (- 1) \<or> LoopPrediction_sort_by_score fs a b = Inr 1"
    by (simp add: sk)
  have s2: "LoopPrediction_sort_by_score fs a b = Inr (- 1) \<longleftrightarrow>
          num_lt (score a) (score b)
          \<or> (score a = score b \<and>
              (py_lt (rmsd a) (rmsd b) \<or> (rmsd a = rmsd b \<and> lp_id a < lp_id b)))"
    by (simp add: sk score_key_less keys)
  have s3: "LoopPrediction_sort_by_score fs a b = Inr (- 1) \<longleftrightarrow>
          LoopPrediction_sort_by_score fs b a = Inr 1"
    using ne(1) by (auto simp: sk)
  have s4: "LoopPrediction_sort_by_score fs a b = Inr (- 1) \<and>
          LoopPrediction_sort_by_score fs b c = Inr (- 1) \<longrightarrow>
          LoopPrediction_sort_by_score fs a c = Inr (- 1)"
    by (auto simp: sk split: if_splits)
  have r1: "LoopPrediction_sort_by_rmsd fs a b = Inr (- 1) \<or> LoopPrediction_sort_by_rmsd fs a b = Inr 1"
    by (simp add: rk)
  have r2: "LoopPrediction_sort_by_rmsd fs a b = Inr (- 1) \<longleftrightarrow>
          py_lt (rmsd a) (rmsd b)
          \<or> (rmsd a = rmsd b \<and>
              (num_lt (score a) (score b) \<or> (score a = score b \<and> lp_id a < lp_id b)))"
    by (simp add: rk rmsd_key_less keys)
  have r3: "LoopPrediction_sort_by_rmsd fs a b = Inr (- 1) \<longleftrightarrow>
          LoopPrediction_sort_by_rmsd fs b a = Inr 1"
    using ne(2) by (auto simp: rk)
  have r4: "LoopPrediction_sort_by_rmsd fs a b = Inr (- 1) \<and>
          LoopPrediction_sort_by_rmsd fs b c = Inr (- 1) \<longrightarrow>
          LoopPrediction_sort_by_rmsd fs a c = Inr (- 1)"
    by (auto simp: rk split: if_splits)
  show ?thesis
    using s1 s2 s3 s4 r1 r2 r3 r4 by blast
qed

theorem comparators_strict_total_order_witness:
  "LoopPrediction_sort_by_score (\<lambda>p. True)
     (prediction 1 (Num 2) (Some (Num 3))) (prediction 2 (Num 2) (Some (Num 3))) = Inr (- 1)
   \<and> LoopPrediction_sort_by_score (\<lambda>p. True)
     (prediction 2 (Num 2) (Some (Num 3))) (prediction 1 (Num 2) (Some (Num 3))) = Inr 1
   \<and> LoopPrediction_sort_by_score (\<lambda>p. True)
     (prediction 2 (Num 2) (Some (Num 3))) (prediction 3 (Num 2) (Some PosInf)) = Inr (- 1)
   \<and> LoopPrediction_sort_by_score (\<lambda>p. True)
     (prediction 1 (Num 2) (Some (Num 3))) (prediction 3 (Num 2) (Some PosInf)) = Inr (- 1)
   \<and> LoopPrediction_sort_by_rmsd (\<lambda>p. True)
     (prediction 1 (Num 2) (Some (Num 3))) (prediction 2 (Num 2) (Some (Num 3))) = Inr (- 1)
   \<and> LoopPrediction_sort_by_rmsd (\<lambda>p. True)
     (prediction 2 (Num 2) (Some (Num 3))) (prediction 1 (Num 2) (Some (Num 3))) = Inr 1"
  using comparators_strict_total_order
    [of "\<lambda>p. True" "prediction 1 (Num 2) (Some (Num 3))" "prediction 2 (Num 2) (Some (Num 3))"
        "prediction 3 (Num 2) (Some PosInf)"]
  by (simp add: check_types_def prediction_def not_nan_def LoopPrediction_sort_by_score_def
      LoopPrediction_sort_by_rmsd_def)

text \<open>
  Claim C3 as stated fails on NaN, which \<^verbatim>\<open>_check_types\<close> accepts as a \<^verbatim>\<open>float\<close>:
  with a NaN score in one of two records by-score answers \<open>1\<close> in both orders of the
  arguments, and so does by-deviation with a NaN deviation.
\<close>

theorem comparators_nan_counterexample:
  "check_types (\<lambda>p. True) (prediction 1 NaN None) = Inr ()
   \<and> check_types (\<lambda>p. True) (prediction 2 (Num 1) None) = Inr ()
   \<and> LoopPrediction_sort_by_score (\<lambda>p. True) (prediction 1 NaN None) (prediction 2 (Num 1) None)
       = Inr 1
   \<and> LoopPrediction_sort_by_score (\<lambda>p. True) (prediction 2 (Num 1) None) (prediction 1 NaN None)
       = Inr 1
   \<and> LoopPrediction_sort_by_rmsd (\<lambda>p. True)
         (prediction 1 (Num 1) (Some NaN)) (prediction 2 (Num 1) (Some (Num 1))) = Inr 1
   \<and> LoopPrediction_sort_by_rmsd (\<lambda>p. True)
         (prediction 2 (Num 1) (Some (Num 1))) (prediction 1 (Num 1) (Some NaN)) = Inr 1"
  by (simp add: check_types_def prediction_def LoopPrediction_sort_by_score_def
      LoopPrediction_sort_by_rmsd_def)

text \<open>
  Claim C4, amended to sets without NaN. On a set of type-checked records with unique ids
  of which no score and no deviation is NaN, \<^verbatim>\<open>sort_by_score\<close>, then
  \<^verbatim>\<open>sort_by_rmsd\<close>, then \<^verbatim>\<open>sort_by_score\<close> again gives the sequence that one
  \<^verbatim>\<open>sort_by_score\<close> gives. That sequence holds the same records, is ascending in
  (score, deviation, id), and is the same for every order of the records before the sort;
  it is the only arrangement of the records that is ascending in (score, deviation, id), so
  the result does not depend on the sorting algorithm. The lookup mapping is not touched.
\<close>

theorem sort_by_score_canonical:
  assumes wt: "well_typed fs h s" and u: "unique_ids h s" and nn: "no_nan h s"
  shows "\<exists>s1 s2.
           LoopPredictionSet_sort_by_score fs h s = Inr s1
           \<and> LoopPredictionSet_sort_by_rmsd fs h s1 = Inr s2
           \<and> LoopPredictionSet_sort_by_score fs h s2 = Inr s1
           \<and> mset (loop_predictions s1) = mset (loop_predictions s)
           \<and> sorted (map (\<lambda>lp. score_key (objects h lp)) (loop_predictions s1))
           \<and> loop_prediction_map s1 = loop_prediction_map s
           \<and> (\<forall>ys. mset ys = mset (loop_predictions s) \<longrightarrow>
                  LoopPredictionSet_sort_by_score fs h (s\<lparr>loop_predictions := ys\<rparr>) = Inr s1)
           \<and> (\<forall>ys. mset ys = mset (loop_predictions s)
                    \<and> sorted (map (\<lambda>lp. score_key (objects h lp)) ys) \<longrightarrow>
                  ys = loop_predictions s1)"
proof -
  let ?f = "\<lambda>lp. score_key (objects h lp)" and ?g = "\<lambda>lp. rmsd_key (objects h lp)"
  let ?xs = "loop_predictions s"
  let ?s1 = "s\<lparr>loop_predictions := sort_key ?f ?xs\<rparr>"
  let ?s2 = "s\<lparr>loop_predictions := sort_key ?g (sort_key ?f ?xs)\<rparr>"
  have inj: "inj_on ?f (set ?xs)"
    using u ids_distinct_refs(2) [of h ?xs] by (auto simp: unique_ids_def inj_on_def score_key_def)
  have a: "LoopPredictionSet_sort_by_score fs h s = Inr ?s1"
    using wt u nn by (rule set_sort_by_score)
  have m1: "mset (loop_predictions ?s1) = mset ?xs" by simp
  have wt1: "well_typed fs h ?s1" and u1: "unique_ids h ?s1" and nn1: "no_nan h ?s1"
    using wt u nn well_typed_mset [OF m1] unique_ids_mset [OF m1] no_nan_mset [OF m1]
    by simp_all
  have "LoopPredictionSet_sort_by_rmsd fs h ?s1
          = Inr (?s1\<lparr>loop_predictions := sort_key ?g (loop_predictions ?s1)\<rparr>)"
    using wt1 u1 nn1 by (rule set_sort_by_rmsd)
  then have b: "LoopPredictionSet_sort_by_rmsd fs h ?s1 = Inr ?s2" by simp
  have perm: "LoopPredictionSet_sort_by_score fs h (s\<lparr>loop_predictions := ys\<rparr>) = Inr ?s1"
    if ys: "mset ys = mset ?xs" for ys
  proof -
    let ?t = "s\<lparr>loop_predictions := ys\<rparr>"
    have mt: "mset (loop_predictions ?t) = mset ?xs" using ys by simp
    have "well_typed fs h ?t" "unique_ids h ?t" "no_nan h ?t"
      using wt u nn well_typed_mset [OF mt] unique_ids_mset [OF mt] no_nan_mset [OF mt]
      by simp_all
    then have "LoopPredictionSet_sort_by_score fs h ?t
                 = Inr (?t\<lparr>loop_predictions := sort_key ?f (loop_predictions ?t)\<rparr>)"
      by (rule set_sort_by_score)
    moreover have "sort_key ?f ys = sort_key ?f ?xs"
      using ys inj by (rule sort_key_canonical)
    ultimately show ?thesis by simp
  qed
  have "LoopPredictionSet_sort_by_score fs h (s\<lparr>loop_predictions := sort_key ?g (sort_key ?f ?xs)\<rparr>)
          = Inr ?s1"
    by (rule perm) simp
  then have c: "LoopPredictionSet_sort_by_score fs h ?s2 = Inr ?s1" .
  have d: "sorted (map ?f (loop_predictions ?s1))" by simp
  have e: "loop_prediction_map ?s1 = loop_prediction_map s" by simp
  have uniq: "ys = loop_predictions ?s1"
    if "mset ys = mset ?xs" "sorted (map ?f ys)" for ys
  proof -
    have "sort_key ?f ?xs = ys"
      using that(1) [symmetric] inj that(2) by (rule sort_key_inj_key_eq)
    then show ?thesis by simp
  qed
  from a b c m1 d e perm uniq show ?thesis by blast
qed

theorem sort_by_score_canonical_witness:
  "well_typed (\<lambda>p. True) example_heap shuffled_set
   \<and> unique_ids example_heap shuffled_set
   \<and> no_nan example_heap shuffled_set
   \<and> LoopPredictionSet_sort_by_score (\<lambda>p. True) example_heap shuffled_set = Inr example_set
   \<and> LoopPredictionSet_sort_by_rmsd (\<lambda>p. True) example_heap example_set
        = Inr (example_set\<lparr>loop_predictions := [0, 3, 1, 2]\<rparr>)
   \<and> LoopPredictionSet_sort_by_score (\<lambda>p. True) example_heap
        (example_set\<lparr>loop_predictions := [0, 3, 1, 2]\<rparr>) = Inr example_set"
proof -
  have wt: "well_typed (\<lambda>p. True) example_heap shuffled_set"
    and u: "unique_ids example_heap shuffled_set"
    and nn: "no_nan example_heap shuffled_set"
    by code_simp+
  have a: "LoopPredictionSet_sort_by_score (\<lambda>p. True) example_heap shuffled_set = Inr example_set"
    by code_simp
  have b: "LoopPredictionSet_sort_by_rmsd (\<lambda>p. True) example_heap example_set
        = Inr (example_set\<lparr>loop_predictions := [0, 3, 1, 2]\<rparr>)"
    by code_simp
  from sort_by_score_canonical [OF wt u nn] obtain s1 s2 where
    "LoopPredictionSet_sort_by_score (\<lambda>p. True) example_heap shuffled_set = Inr s1"
    "LoopPredictionSet_sort_by_rmsd (\<lambda>p. True) example_heap s1 = Inr s2"
    "LoopPredictionSet_sort_by_score (\<lambda>p. True) example_heap s2 = Inr s1"
    by blast
  then have "LoopPredictionSet_sort_by_score (\<lambda>p. True) example_heap
        (example_set\<lparr>loop_predictions := [0, 3, 1, 2]\<rparr>) = Inr example_set"
    using a b by simp
  then show ?thesis using wt u nn a b by simp
qed

text \<open>
  Claim C4 as stated fails on a set with a NaN score. The first record has the score NaN and
  the deviation 2, the second the score 1 and the deviation 1. Every comparison of the two
  by score answers \<open>1\<close>, so \<^verbatim>\<open>sort_by_score\<close> leaves any order of the two as it is; it
  keeps the sequence that begins with the first record, \<^verbatim>\<open>sort_by_rmsd\<close> then puts the
  second record first, and the second \<^verbatim>\<open>sort_by_score\<close> keeps that. On two elements
  the builtin sort makes the one comparison the model makes.
\<close>

theorem sort_by_score_nan_counterexample:
  "well_typed (\<lambda>p. True) nan_heap nan_set
   \<and> unique_ids nan_heap nan_set
   \<and> map_agrees nan_heap nan_set
   \<and> all_have_rmsd nan_heap nan_set
   \<and> LoopPredictionSet_sort_by_score (\<lambda>p. True) nan_heap nan_set = Inr nan_set
   \<and> LoopPredictionSet_sort_by_rmsd (\<lambda>p. True) nan_heap nan_set = Inr nan_set_swapped
   \<and> LoopPredictionSet_sort_by_score (\<lambda>p. True) nan_heap nan_set_swapped = Inr nan_set_swapped
   \<and> loop_predictions nan_set_swapped \<noteq> loop_predictions nan_set"
  by code_simp

text \<open>
  Claim C5. On a set with unique ids whose sequence and mapping agree, \<^verbatim>\<open>truncate(n)\<close>
  with \<open>n \<ge> 0\<close> raises nothing (neither the \<^verbatim>\<open>KeyError\<close> of \<^verbatim>\<open>del\<close> nor the final
  assertion), keeps exactly the first \<open>n\<close> records, so \<open>min n L\<close> of them, removes the id of
  every discarded record from the mapping, and \<^verbatim>\<open>get\<close> returns every record that is still
  in the sequence. The truncated set again has unique ids and an agreeing mapping.
\<close>

theorem truncate_keeps_first_n:
  assumes n: "0 \<le> n" and u: "unique_ids h s" and m: "map_agrees h s"
  shows "\<exists>s'. truncate h s n = Inr s'
           \<and> loop_predictions s' = take (nat n) (loop_predictions s)
           \<and> length (loop_predictions s') = min (nat n) (length (loop_predictions s))
           \<and> (\<forall>lp \<in> set (drop (nat n) (loop_predictions s)). get s' (lp_id (objects h lp)) = None)
           \<and> (\<forall>lp \<in> set (loop_predictions s'). get s' (lp_id (objects h lp)) = Some lp)
           \<and> set (dict_keys (loop_prediction_map s')) = set (ids_of h (loop_predictions s'))
           \<and> unique_ids h s' \<and> map_agrees h s'"
proof -
  let ?xs = "loop_predictions s"
  let ?s' = "\<lparr>loop_predictions = take (nat n) ?xs,
              loop_prediction_map =
                filter (\<lambda>(k, v). k \<notin> set (ids_of h (drop (nat n) ?xs))) (loop_prediction_map s)\<rparr>"
  have t: "truncate h s n = Inr ?s'"
    using n u m by (rule truncate_eq)
  have len: "length (loop_predictions ?s') = min (nat n) (length ?xs)"
    by (simp add: min.commute)
  have dropped: "\<forall>lp \<in> set (drop (nat n) ?xs). get ?s' (lp_id (objects h lp)) = None"
    by (simp add: get_def dict_get_def truncate_get_dropped)
  have kept: "\<forall>lp \<in> set (loop_predictions ?s'). get ?s' (lp_id (objects h lp)) = Some lp"
    using truncate_get_kept [OF u m] by (simp add: get_def dict_get_def)
  have dxs: "distinct (ids_of h ?xs)" using u by (simp add: unique_ids_def)
  have "set (dict_keys (loop_prediction_map s)) = set (ids_of h ?xs)"
    using m by (simp add: map_agrees_def)
  then have keys: "set (dict_keys (loop_prediction_map ?s')) = set (ids_of h (loop_predictions ?s'))"
    using ids_of_take_drop [OF dxs, of "nat n"] by (auto simp: dict_keys_filter)
  have "distinct (take (nat n) (ids_of h ?xs))" using dxs by simp
  then have u': "unique_ids h ?s'"
    by (simp add: unique_ids_def ids_of_def take_map)
  have "distinct (dict_keys (loop_prediction_map s))"
    using m by (simp add: map_agrees_def)
  then have "distinct (dict_keys (loop_prediction_map ?s'))"
    by (simp add: dict_keys_filter)
  then have m': "map_agrees h ?s'"
    using keys kept by (simp add: map_agrees_def list_all_iff)
  from t len dropped kept keys u' m' show ?thesis by (intro exI [of _ ?s']) simp
qed

theorem truncate_keeps_first_n_witness:
  "unique_ids example_heap example_set \<and> map_agrees example_heap example_set
   \<and> truncate example_heap example_set 2
        = Inr \<lparr>loop_predictions = [0, 1], loop_prediction_map = [(0, 0), (1, 1)]\<rparr>
   \<and> get \<lparr>loop_predictions = [0, 1], loop_prediction_map = [(0, 0), (1, 1)]\<rparr> 1 = Some 1
   \<and> get \<lparr>loop_predictions = [0, 1], loop_prediction_map = [(0, 0), (1, 1)]\<rparr> 2 = None"
proof -
  have u: "unique_ids example_heap example_set" and m: "map_agrees example_heap example_set"
    by (simp_all add: example_defs map_agrees_def dict_keys_def get_def dict_get_def)
  have t: "truncate example_heap example_set 2
        = Inr \<lparr>loop_predictions = [0, 1], loop_prediction_map = [(0, 0), (1, 1)]\<rparr>"
    by code_simp
  from truncate_keeps_first_n [of 2, OF _ u m] t
  have "get \<lparr>loop_predictions = [0, 1], loop_prediction_map = [(0, 0), (1, 1)]\<rparr> 1 = Some 1"
    "get \<lparr>loop_predictions = [0, 1], loop_prediction_map = [(0, 0), (1, 1)]\<rparr> 2 = None"
    by (auto simp: example_defs)
  then show ?thesis using u m t by simp
qed

text \<open>
  Claim C6, amended to non-empty sets. On a non-empty set whose records all have a deviation
  \<^verbatim>\<open>fraction_with_rmsd_lt\<close> returns the number of records with deviation \<open>< x\<close> (\<open>\<le> x\<close>
  when not strict) divided by the number of records, a value between 0 and 1; on any set
  with a record without deviation it raises the missing-RMSD exception when
  \<^verbatim>\<open>allow_failure\<close> is not set. The witness is the specification's example: deviations
  0.5, 1.0, 1.5, 0.9 and threshold 1.0 give 1/2 when strict and 3/4 when not.
\<close>

theorem fraction_with_rmsd_lt_nonempty:
  assumes "loop_predictions s \<noteq> []" and "all_have_rmsd h s"
  shows "fraction_with_rmsd_lt h s x allow_failure strict
           = Inr (fraction_below h (loop_predictions s) x strict)
         \<and> 0 \<le> fraction_below h (loop_predictions s) x strict
         \<and> fraction_below h (loop_predictions s) x strict \<le> 1
         \<and> ((\<exists>lp \<in> set (loop_predictions t). rmsd (objects h lp) = None) \<longrightarrow>
              fraction_with_rmsd_lt h t x False strict = Inl MissingRmsd)"
proof -
  have a: "fraction_with_rmsd_lt h s x allow_failure strict
           = Inr (fraction_below h (loop_predictions s) x strict)"
    using assms by (rule fraction_with_rmsd_lt_eq)
  have b: "(\<exists>lp \<in> set (loop_predictions t). rmsd (objects h lp) = None) \<longrightarrow>
              fraction_with_rmsd_lt h t x False strict = Inl MissingRmsd"
    by (simp add: fraction_with_rmsd_lt_def count_rmsd_lt_missing)
  show ?thesis using a b fraction_below_bounds [of h "loop_predictions s" x strict] by blast
qed

theorem fraction_with_rmsd_lt_nonempty_witness:
  "loop_predictions example_set \<noteq> []
   \<and> all_have_rmsd example_heap example_set
   \<and> fraction_with_rmsd_lt example_heap example_set (Num 1) False True = Inr (1 / 2)
   \<and> fraction_with_rmsd_lt example_heap example_set (Num 1) False False = Inr (3 / 4)
   \<and> fraction_with_rmsd_lt empty_heap \<lparr>loop_predictions = [0], loop_prediction_map = [(0, 0)]\<rparr>
        (Num 1) False True = Inl MissingRmsd"
proof -
  have ne: "loop_predictions example_set \<noteq> []" and r: "all_have_rmsd example_heap example_set"
    by code_simp+
  have m: "fraction_with_rmsd_lt empty_heap
             \<lparr>loop_predictions = [0], loop_prediction_map = [(0, 0)]\<rparr> (Num 1) False True
           = Inl MissingRmsd"
    by code_simp
  have "fraction_below example_heap (loop_predictions example_set) (Num 1) True = 1 / 2"
    "fraction_below example_heap (loop_predictions example_set) (Num 1) False = 3 / 4"
    by code_simp+
  then show ?thesis
    using fraction_with_rmsd_lt_nonempty [OF ne r, of "Num 1" False True]
      fraction_with_rmsd_lt_nonempty [OF ne r, of "Num 1" False False] ne r m
    by simp
qed

text \<open>
  Claim C6 as stated fails on the empty set: all of its records have a deviation, and the
  division \<^verbatim>\<open>float(0) / float(0)\<close> raises \<^verbatim>\<open>ZeroDivisionError\<close>.
\<close>

theorem fraction_with_rmsd_lt_empty_counterexample:
  "all_have_rmsd empty_heap LoopPredictionSet_init
   \<and> fraction_with_rmsd_lt empty_heap LoopPredictionSet_init (Num 1) False True
       = Inl ZeroDivisionError"
  by (simp add: all_have_rmsd_def LoopPredictionSet_init_def fraction_with_rmsd_lt_def)

text \<open>
  Claim C7. For \<open>0 \<le> a \<le> b \<le> L\<close> the slice \<^verbatim>\<open>s[a:b]\<close> is a new set of \<open>b - a\<close>
  references, the very references of the source at the positions \<open>a, ..., b - 1\<close> in that
  order; the keys of its mapping are the ids of these records, each once, and with unique
  ids every id is mapped to its record. The slices \<^verbatim>\<open>s[:b]\<close> and \<^verbatim>\<open>s[a:]\<close> are
  the cases \<open>a = 0\<close> and \<open>b = L\<close>. \<^verbatim>\<open>__getitem__\<close> assigns to no field of the source
  and to no prediction, so the model returns neither a new source nor a new heap.
\<close>

theorem slice_new_set:
  assumes "0 \<le> a" "a \<le> b" "b \<le> int (length (loop_predictions s))"
  shows "\<exists>t. getitem h s (KSlice (Some a) (Some b) None) = Inr (ItemSet t)
           \<and> length (loop_predictions t) = nat (b - a)
           \<and> loop_predictions t = take (nat (b - a)) (drop (nat a) (loop_predictions s))
           \<and> (\<forall>k < nat (b - a). loop_predictions t ! k = loop_predictions s ! (nat a + k))
           \<and> distinct (dict_keys (loop_prediction_map t))
           \<and> set (dict_keys (loop_prediction_map t)) = set (ids_of h (loop_predictions t))
           \<and> (unique_ids h s \<longrightarrow> unique_ids h t \<and> map_agrees h t)
           \<and> (a = 0 \<longrightarrow> getitem h s (KSlice None (Some b) None) = Inr (ItemSet t))
           \<and> (b = int (length (loop_predictions s)) \<longrightarrow>
                  getitem h s (KSlice (Some a) None None) = Inr (ItemSet t))"
proof -
  let ?ys = "take (nat (b - a)) (drop (nat a) (loop_predictions s))"
  let ?m = "fold (\<lambda>lp m. dict_setitem m (lp_id (objects h lp)) lp) ?ys []"
  let ?t = "\<lparr>loop_predictions = ?ys, loop_prediction_map = ?m\<rparr>"
  have g: "getitem h s (KSlice (Some a) (Some b) None) = Inr (ItemSet ?t)"
    using assms by (simp add: getitem_def getitem_slice_range from_list_eq)
  have len: "length ?ys = nat (b - a)" using assms by simp
  have nth: "\<forall>k < nat (b - a). ?ys ! k = loop_predictions s ! (nat a + k)"
    using assms by simp
  have dk: "distinct (dict_keys ?m)"
    by (rule fold_setitem_distinct) (simp add: dict_keys_def)
  have "set (dict_keys ?m) = set (dict_keys []) \<union> set (ids_of h ?ys)"
    by (rule fold_setitem_keys)
  then have keys: "set (dict_keys ?m) = set (ids_of h ?ys)"
    by (simp add: dict_keys_def)
  have inv: "unique_ids h ?t \<and> map_agrees h ?t" if u: "unique_ids h s"
  proof -
    have "distinct (take (nat (b - a)) (drop (nat a) (ids_of h (loop_predictions s))))"
      using u by (simp add: unique_ids_def)
    then have d: "distinct (ids_of h ?ys)"
      by (simp add: ids_of_def take_map drop_map)
    then have "list_all (\<lambda>lp. get ?t (lp_id (objects h lp)) = Some lp) ?ys"
      by (simp add: list_all_iff get_def dict_get_def fold_setitem_lookup)
    then show ?thesis using d dk keys by (simp add: unique_ids_def map_agrees_def)
  qed
  have "getitem_slice h s None (Some b) None = getitem_slice h s (Some 0) (Some b) None"
    using assms by (simp add: getitem_slice_def slice_indices_def clip_index_def)
  then have g0: "a = 0 \<longrightarrow> getitem h s (KSlice None (Some b) None) = Inr (ItemSet ?t)"
    using g by (auto simp: getitem_def)
  have "getitem_slice h s (Some a) None None
          = getitem_slice h s (Some a) (Some (int (length (loop_predictions s)))) None"
    by (simp add: getitem_slice_def slice_indices_def clip_index_def)
  then have g1: "b = int (length (loop_predictions s)) \<longrightarrow>
                  getitem h s (KSlice (Some a) None None) = Inr (ItemSet ?t)"
    using g by (auto simp: getitem_def)
  show ?thesis
    using g len nth dk keys inv g0 g1 by (intro exI [of _ ?t]) simp
qed

theorem slice_new_set_witness:
  "getitem example_heap shuffled_set (KSlice (Some 1) (Some 3) None)
     = Inr (ItemSet \<lparr>loop_predictions = [0, 3], loop_prediction_map = [(0, 0), (3, 3)]\<rparr>)
   \<and> unique_ids example_heap shuffled_set
   \<and> map_agrees example_heap \<lparr>loop_predictions = [0, 3], loop_prediction_map = [(0, 0), (3, 3)]\<rparr>"
proof -
  have g: "getitem example_heap shuffled_set (KSlice (Some 1) (Some 3) None)
     = Inr (ItemSet \<lparr>loop_predictions = [0, 3], loop_prediction_map = [(0, 0), (3, 3)]\<rparr>)"
    by code_simp
  have u: "unique_ids example_heap shuffled_set"
    by (simp add: example_defs)
  from slice_new_set [of 1 3 shuffled_set example_heap] g u
  have "map_agrees example_heap \<lparr>loop_predictions = [0, 3], loop_prediction_map = [(0, 0), (3, 3)]\<rparr>"
    by (auto simp: shuffled_set_def)
  then show ?thesis using g u by simp
qed

text \<open>
  Claim C8. With \<open>1 \<le> top_x \<le> expectn \<le> L\<close> on a set of type-checked records with unique
  ids, agreeing mapping and all deviations computed, the sort by score and the truncation to
  \<open>expectn\<close> that open the analysis of the case return, also where a score or a deviation is
  NaN; the access \<^verbatim>\<open>[int(expectn / 2)]\<close> to the truncated set returns its record at index
  \<open>expectn div 2\<close> (floor division), and that record is the median-by-score record of every
  result of the analysis: index \<open>k\<close> both for \<open>expectn = 2k\<close> and for \<open>expectn = 2k + 1\<close>,
  and index 5 for \<open>expectn = 10\<close>. Where no score and no deviation is NaN the analysis of
  the case returns, and the truncated set is the population, the \<open>expectn\<close> first records in
  score order. On every set of length \<open>expectn \<ge> 1\<close> the access returns the record at that
  index.
\<close>

theorem median_by_score:
  assumes wt: "well_typed fs h s" and u: "unique_ids h s" and m: "map_agrees h s"
    and r: "all_have_rmsd h s"
    and tx1: "1 \<le> top_x" and tx2: "top_x \<le> expectn"
    and en: "expectn \<le> int (length (loop_predictions s))"
  shows "(\<exists>s1 s2. LoopPredictionSet_sort_by_score fs h s = Inr s1
           \<and> truncate h s1 expectn = Inr s2
           \<and> mset (loop_predictions s1) = mset (loop_predictions s)
           \<and> loop_predictions s2 = take (nat expectn) (loop_predictions s1)
           \<and> length (loop_predictions s2) = nat expectn
           \<and> nat (expectn div 2) < length (loop_predictions s2)
           \<and> getitem h s2 (KInt (expectn div 2))
               = Inr (ItemPrediction (loop_predictions s2 ! nat (expectn div 2)))
           \<and> (\<forall>st. extract_analysis_data_case fs h s expectn top_x = Inr st \<longrightarrow>
                  median_scoring_structure st = loop_predictions s2 ! nat (expectn div 2)
                  \<and> (\<forall>k. expectn = 2 * k \<longrightarrow>
                         median_scoring_structure st = loop_predictions s2 ! nat k)
                  \<and> (\<forall>k. expectn = 2 * k + 1 \<longrightarrow>
                         median_scoring_structure st = loop_predictions s2 ! nat k)
                  \<and> (expectn = 10 \<longrightarrow> median_scoring_structure st = loop_predictions s2 ! 5))
           \<and> (no_nan h s \<longrightarrow> loop_predictions s2 = population h s expectn))
         \<and> (no_nan h s \<longrightarrow>
             (\<exists>st. extract_analysis_data_case fs h s expectn top_x = Inr st
               \<and> length (population h s expectn) = nat expectn
               \<and> sorted (map (\<lambda>lp. score_key (objects h lp)) (population h s expectn))
               \<and> nat (expectn div 2) < length (population h s expectn)
               \<and> median_scoring_structure st = population h s expectn ! nat (expectn div 2)
               \<and> (\<forall>k. expectn = 2 * k \<longrightarrow>
                      median_scoring_structure st = population h s expectn ! nat k)
               \<and> (\<forall>k. expectn = 2 * k + 1 \<longrightarrow>
                      median_scoring_structure st = population h s expectn ! nat k)
               \<and> (expectn = 10 \<longrightarrow> median_scoring_structure st = population h s expectn ! 5)))
         \<and> (\<forall>t. int (length (loop_predictions t)) = expectn \<longrightarrow>
                getitem h t (KInt (expectn div 2))
                  = Inr (ItemPrediction (loop_predictions t ! nat (expectn div 2))))"
proof -
  have e1: "1 \<le> expectn" using tx1 tx2 by simp
  then have e0: "0 \<le> expectn" by simp
  from set_sort_by_score_returns [OF wt u] obtain s1 where
    a: "LoopPredictionSet_sort_by_score fs h s = Inr s1"
    and ms: "mset (loop_predictions s1) = mset (loop_predictions s)"
    and mp: "loop_prediction_map s1 = loop_prediction_map s"
    by blast
  have u1: "unique_ids h s1" using u unique_ids_mset [OF ms] by simp
  have m1: "map_agrees h s1" using m map_agrees_mset [OF ms mp] by simp
  define s2 where "s2 = \<lparr>loop_predictions = take (nat expectn) (loop_predictions s1),
      loop_prediction_map =
        filter (\<lambda>(k, v). k \<notin> set (ids_of h (drop (nat expectn) (loop_predictions s1))))
          (loop_prediction_map s1)\<rparr>"
  have t: "truncate h s1 expectn = Inr s2"
    unfolding s2_def using e0 u1 m1 by (rule truncate_eq)
  have tk: "loop_predictions s2 = take (nat expectn) (loop_predictions s1)"
    by (simp add: s2_def)
  have "length (loop_predictions s1) = length (loop_predictions s)"
    using ms by (rule mset_eq_length)
  then have len: "length (loop_predictions s2) = nat expectn"
    using en by (simp add: tk)
  then have ilen: "int (length (loop_predictions s2)) = expectn" using e0 by simp
  have lt: "nat (expectn div 2) < length (loop_predictions s2)"
    using e1 len by simp
  have idx: "getitem h t (KInt (expectn div 2))
                  = Inr (ItemPrediction (loop_predictions t ! nat (expectn div 2)))"
    if "int (length (loop_predictions t)) = expectn" for t
    using e1 that by (auto simp: getitem_def getitem_int_def list_getitem_def)
  have gi: "getitem_int s2 (expectn div 2) = Inr (loop_predictions s2 ! nat (expectn div 2))"
    using e1 ilen by (auto simp: getitem_int_def list_getitem_def)
  have med: "median_scoring_structure st = loop_predictions s2 ! nat (expectn div 2)"
    if "extract_analysis_data_case fs h s expectn top_x = Inr st" for st
    using that unfolding extract_analysis_data_case_def
    by (simp add: a t ilen gi split: sum.splits if_splits prod.splits) auto
  have part: "median_scoring_structure st = loop_predictions s2 ! nat (expectn div 2)
                  \<and> (\<forall>k. expectn = 2 * k \<longrightarrow>
                         median_scoring_structure st = loop_predictions s2 ! nat k)
                  \<and> (\<forall>k. expectn = 2 * k + 1 \<longrightarrow>
                         median_scoring_structure st = loop_predictions s2 ! nat k)
                  \<and> (expectn = 10 \<longrightarrow> median_scoring_structure st = loop_predictions s2 ! 5)"
    if "extract_analysis_data_case fs h s expectn top_x = Inr st" for st
    using med [OF that] by auto
  have pop: "loop_predictions s2 = population h s expectn" if nn: "no_nan h s"
  proof -
    have "LoopPredictionSet_sort_by_score fs h s
            = Inr (s\<lparr>loop_predictions :=
                       sort_key (\<lambda>lp. score_key (objects h lp)) (loop_predictions s)\<rparr>)"
      using wt u nn by (rule set_sort_by_score)
    then have "loop_predictions s1
                 = sort_key (\<lambda>lp. score_key (objects h lp)) (loop_predictions s)"
      using a by auto
    then show ?thesis by (simp add: tk population_def score_order_def)
  qed
  have full: "\<exists>st. extract_analysis_data_case fs h s expectn top_x = Inr st
               \<and> length (population h s expectn) = nat expectn
               \<and> sorted (map (\<lambda>lp. score_key (objects h lp)) (population h s expectn))
               \<and> nat (expectn div 2) < length (population h s expectn)
               \<and> median_scoring_structure st = population h s expectn ! nat (expectn div 2)
               \<and> (\<forall>k. expectn = 2 * k \<longrightarrow>
                      median_scoring_structure st = population h s expectn ! nat k)
               \<and> (\<forall>k. expectn = 2 * k + 1 \<longrightarrow>
                      median_scoring_structure st = population h s expectn ! nat k)
               \<and> (expectn = 10 \<longrightarrow> median_scoring_structure st = population h s expectn ! 5)"
    if nn: "no_nan h s"
  proof -
    from extract_analysis_data_case_succeeds [OF wt u m r nn tx1 tx2 en] obtain st where
      st: "extract_analysis_data_case fs h s expectn top_x = Inr st"
      and med: "median_scoring_structure st = population h s expectn ! nat (expectn div 2)"
      by blast
    have len: "length (population h s expectn) = nat expectn"
      and srt: "sorted (map (\<lambda>lp. score_key (objects h lp)) (population h s expectn))"
      using population_props [OF e0 en] by blast+
    have lt: "nat (expectn div 2) < length (population h s expectn)"
      using e1 len by simp
    have ev: "\<forall>k. expectn = 2 * k \<longrightarrow> median_scoring_structure st = population h s expectn ! nat k"
      using med by auto
    have od: "\<forall>k. expectn = 2 * k + 1 \<longrightarrow>
                    median_scoring_structure st = population h s expectn ! nat k"
      using med by auto
    have ten: "expectn = 10 \<longrightarrow> median_scoring_structure st = population h s expectn ! 5"
      using med by auto
    from st len srt lt med ev od ten show ?thesis by blast
  qed
  have first: "\<exists>s1 s2. LoopPredictionSet_sort_by_score fs h s = Inr s1
           \<and> truncate h s1 expectn = Inr s2
           \<and> mset (loop_predictions s1) = mset (loop_predictions s)
           \<and> loop_predictions s2 = take (nat expectn) (loop_predictions s1)
           \<and> length (loop_predictions s2) = nat expectn
           \<and> nat (expectn div 2) < length (loop_predictions s2)
           \<and> getitem h s2 (KInt (expectn div 2))
               = Inr (ItemPrediction (loop_predictions s2 ! nat (expectn div 2)))
           \<and> (\<forall>st. extract_analysis_data_case fs h s expectn top_x = Inr st \<longrightarrow>
                  median_scoring_structure st = loop_predictions s2 ! nat (expectn div 2)
                  \<and> (\<forall>k. expectn = 2 * k \<longrightarrow>
                         median_scoring_structure st = loop_predictions s2 ! nat k)
                  \<and> (\<forall>k. expectn = 2 * k + 1 \<longrightarrow>
                         median_scoring_structure st = loop_predictions s2 ! nat k)
                  \<and> (expectn = 10 \<longrightarrow> median_scoring_structure st = loop_predictions s2 ! 5))
           \<and> (no_nan h s \<longrightarrow> loop_predictions s2 = population h s expectn)"
    using a t ms tk len lt idx [OF ilen] part pop
    by (intro exI [of _ s1] exI [of _ s2]) blast
  show ?thesis using first full idx by blast
qed

theorem median_by_score_witness:
  "well_typed (\<lambda>p. True) benchmark_heap benchmark_set
   \<and> unique_ids benchmark_heap benchmark_set
   \<and> map_agrees benchmark_heap benchmark_set
   \<and> all_have_rmsd benchmark_heap benchmark_set
   \<and> no_nan benchmark_heap benchmark_set
   \<and> map_sum id median_scoring_structure
        (extract_analysis_data_case (\<lambda>p. True) benchmark_heap benchmark_set 10 3) = Inr 4
   \<and> population benchmark_heap benchmark_set 10 ! 5 = 4"
proof -
  have wt: "well_typed (\<lambda>p. True) benchmark_heap benchmark_set"
    and u: "unique_ids benchmark_heap benchmark_set"
    and m: "map_agrees benchmark_heap benchmark_set"
    and r: "all_have_rmsd benchmark_heap benchmark_set"
    and nn: "no_nan benchmark_heap benchmark_set"
    by code_simp+
  have v: "map_sum id median_scoring_structure
        (extract_analysis_data_case (\<lambda>p. True) benchmark_heap benchmark_set 10 3) = Inr 4"
    by code_simp
  from median_by_score [OF wt u m r, of 3 10] nn obtain st where
    "extract_analysis_data_case (\<lambda>p. True) benchmark_heap benchmark_set 10 3 = Inr st"
    "median_scoring_structure st = population benchmark_heap benchmark_set 10 ! 5"
    by (auto simp: benchmark_set_def)
  then have "population benchmark_heap benchmark_set 10 ! 5 = 4"
    using v by simp
  then show ?thesis using wt u m r nn v by simp
qed

text \<open>
  Claim C9, amended to sets without NaN. Under the same conditions and with no score and no
  deviation NaN the analysis of the case returns, so both of its final assertions hold: the
  TopX deviation is at most the deviation of the best-scoring record and the TopX score is at
  most the score of the worst-scoring record. The TopX set is the first \<open>top_x\<close> records of
  the population and its first record is the best-scoring record. The pair (TopX deviation,
  TopX score) found by the scan belongs to a record of the TopX set, and every record of the
  TopX set has a greater deviation, or the same deviation and a score at least as great. On
  every non-empty sequence of records without NaN the scan started at its first record
  returns the pair (deviation, score) of a record of the sequence, the least of the sequence.
\<close>

theorem top_x_best_deviation:
  assumes wt: "well_typed fs h s" and u: "unique_ids h s" and m: "map_agrees h s"
    and r: "all_have_rmsd h s" and nn: "no_nan h s"
    and tx1: "1 \<le> top_x" and tx2: "top_x \<le> expectn"
    and en: "expectn \<le> int (length (loop_predictions s))"
  shows "(\<exists>st. extract_analysis_data_case fs h s expectn top_x = Inr st
           \<and> loop_predictions (top_x_loop_prediction_set st)
               = take (nat top_x) (population h s expectn)
           \<and> best_scoring_structure st = population h s expectn ! 0
           \<and> worst_scoring_structure st = last (population h s expectn)
           \<and> top_1_rmsd st = rmsd (objects h (best_scoring_structure st))
           \<and> worst_score st = score (objects h (worst_scoring_structure st))
           \<and> (\<exists>lp \<in> set (loop_predictions (top_x_loop_prediction_set st)).
                  rmsd (objects h lp) = top_x_rmsd st \<and> score (objects h lp) = top_x_score st)
           \<and> (\<forall>lp \<in> set (loop_predictions (top_x_loop_prediction_set st)).
                  py_lt (top_x_rmsd st) (rmsd (objects h lp))
                  \<or> (top_x_rmsd st = rmsd (objects h lp)
                      \<and> num_le (top_x_score st) (score (objects h lp))))
           \<and> py_le (top_x_rmsd st) (top_1_rmsd st)
           \<and> num_le (top_x_score st) (worst_score st)
           \<and> loop_predictions (top_x_loop_prediction_set st) ! 0 = best_scoring_structure st)
         \<and> (\<forall>ts. ts \<noteq> [] \<and> (\<forall>lp \<in> set ts. not_nan (objects h lp)) \<longrightarrow>
                top_x_scan h ts (rmsd_score h (ts ! 0)) \<in> rmsd_score h ` set ts
                \<and> pair_key (top_x_scan h ts (rmsd_score h (ts ! 0)))
                    = Min ((\<lambda>lp. pair_key (rmsd_score h lp)) ` set ts)
                \<and> (\<forall>lp \<in> set ts.
                      py_lt (fst (top_x_scan h ts (rmsd_score h (ts ! 0)))) (rmsd (objects h lp))
                      \<or> (fst (top_x_scan h ts (rmsd_score h (ts ! 0))) = rmsd (objects h lp)
                          \<and> num_le (snd (top_x_scan h ts (rmsd_score h (ts ! 0))))
                                (score (objects h lp)))))"
proof -
  let ?zs = "population h s expectn"
  let ?ts = "take (nat top_x) ?zs"
  let ?K = "\<lambda>ts. (\<lambda>lp. pair_key (rmsd_score h lp)) ` set ts"
  from extract_analysis_data_case_succeeds [OF assms] obtain st where
    st: "extract_analysis_data_case fs h s expectn top_x = Inr st"
    and tset: "loop_predictions (top_x_loop_prediction_set st) = ?ts"
    and best: "best_scoring_structure st = ?zs ! 0"
    and worst: "worst_scoring_structure st = last ?zs"
    and ws: "worst_score st = score (objects h (last ?zs))"
    and t1: "top_1_rmsd st = rmsd (objects h (?zs ! 0))"
    and mem: "(top_x_rmsd st, top_x_score st) \<in> rmsd_score h ` set ?ts"
    and mn: "pair_key (top_x_rmsd st, top_x_score st) = Min (?K ?ts)"
    by blast
  have e1: "1 \<le> expectn" using tx1 tx2 by simp
  then have e0: "0 \<le> expectn" by simp
  have len: "length ?zs = nat expectn"
    and srt: "sorted (map (\<lambda>lp. score_key (objects h lp)) ?zs)"
    and sub: "set ?zs \<subseteq> set (loop_predictions s)"
    using population_props [OF e0 en] by blast+
  have nz: "not_nan (objects h x)" if "x \<in> set ?zs" for x
    using nn sub that by (auto simp: no_nan_def list_all_iff)
  have nt: "not_nan (objects h x)" if "x \<in> set ?ts" for x
    using that by (intro nz) (rule in_set_takeD)
  have zs_ne: "?zs \<noteq> []" using len e1 by auto
  have ts_ne: "?ts \<noteq> []" using zs_ne tx1 by simp
  have first: "?ts ! 0 = ?zs ! 0" using tx1 by simp
  have best_in: "?zs ! 0 \<in> set ?ts" using ts_ne first by (metis nth_mem length_greater_0_conv)
  obtain lp where lp: "lp \<in> set ?ts" "(top_x_rmsd st, top_x_score st) = rmsd_score h lp"
    using mem by auto
  have ok: "pair_ok (top_x_rmsd st, top_x_score st)"
    using nt [OF lp(1)] lp(2) by (simp add: pair_ok_def rmsd_score_def not_nan_def)
  have ex: "\<exists>lp \<in> set ?ts. rmsd (objects h lp) = top_x_rmsd st \<and> score (objects h lp) = top_x_score st"
    using lp by (auto simp: rmsd_score_def)
  have le: "py_lt (top_x_rmsd st) (rmsd (objects h x))
              \<or> (top_x_rmsd st = rmsd (objects h x)
                  \<and> num_le (top_x_score st) (score (objects h x)))"
    if x: "x \<in> set ?ts" for x
  proof -
    have "pair_key (top_x_rmsd st, top_x_score st) \<le> pair_key (rmsd_score h x)"
      unfolding mn using x by (intro Min_le) simp_all
    moreover have "pair_ok (rmsd (objects h x), score (objects h x))"
      using nt [OF x] by (simp add: pair_ok_def not_nan_def)
    ultimately show ?thesis
      using ok by (simp add: rmsd_score_def pair_key_le)
  qed
  have all: "\<forall>lp \<in> set ?ts.
                  py_lt (top_x_rmsd st) (rmsd (objects h lp))
                  \<or> (top_x_rmsd st = rmsd (objects h lp)
                      \<and> num_le (top_x_score st) (score (objects h lp)))"
    using le by blast
  have "top_x_rmsd st \<noteq> Some NaN" using ok by (simp add: pair_ok_def)
  then have a2: "py_le (top_x_rmsd st) (top_1_rmsd st)"
    using le [OF best_in] unfolding t1 by (rule_tac py_lt_or_eq_le)
  have lz: "lp \<in> set ?zs" using lp(1) by (rule in_set_takeD)
  then have "num_key (score (objects h lp)) \<le> num_key (score (objects h (last ?zs)))"
    using srt zs_ne by (intro sorted_score_key_score)
  moreover have "score (objects h lp) \<noteq> NaN" "score (objects h (last ?zs)) \<noteq> NaN"
    using nz [OF lz] nz [of "last ?zs"] zs_ne by (simp_all add: not_nan_def)
  ultimately have "num_le (score (objects h lp)) (score (objects h (last ?zs)))"
    by (simp add: num_le_key)
  moreover have "top_x_score st = score (objects h lp)"
    using lp(2) by (simp add: rmsd_score_def)
  ultimately have a1: "num_le (top_x_score st) (worst_score st)" by (simp add: ws)
  have b1: "top_1_rmsd st = rmsd (objects h (best_scoring_structure st))"
    by (simp add: t1 best)
  have w1: "worst_score st = score (objects h (worst_scoring_structure st))"
    by (simp add: ws worst)
  have f1: "loop_predictions (top_x_loop_prediction_set st) ! 0 = best_scoring_structure st"
    by (simp only: tset best first)
  have scan: "top_x_scan h ts (rmsd_score h (ts ! 0)) \<in> rmsd_score h ` set ts
                \<and> pair_key (top_x_scan h ts (rmsd_score h (ts ! 0))) = Min (?K ts)
                \<and> (\<forall>lp \<in> set ts.
                      py_lt (fst (top_x_scan h ts (rmsd_score h (ts ! 0)))) (rmsd (objects h lp))
                      \<or> (fst (top_x_scan h ts (rmsd_score h (ts ! 0))) = rmsd (objects h lp)
                          \<and> num_le (snd (top_x_scan h ts (rmsd_score h (ts ! 0))))
                                (score (objects h lp))))"
    if ne: "ts \<noteq> []" and nts: "\<forall>lp \<in> set ts. not_nan (objects h lp)" for ts
  proof -
    let ?p = "top_x_scan h ts (rmsd_score h (ts ! 0))"
    have hd: "ts ! 0 \<in> set ts" using ne by simp
    have i1: "insert (rmsd_score h (ts ! 0)) (rmsd_score h ` set ts) = rmsd_score h ` set ts"
      using hd by auto
    have i2: "insert (pair_key (rmsd_score h (ts ! 0))) (?K ts) = ?K ts"
      using hd by auto
    have pk: "pair_ok (rmsd_score h x)" if "x \<in> set ts" for x
      using nts that by (simp add: pair_ok_def rmsd_score_def not_nan_def)
    have p_in: "?p \<in> rmsd_score h ` set ts"
      using top_x_scan_mem [of h ts "rmsd_score h (ts ! 0)"] by (simp only: i1)
    have p_min: "pair_key ?p = Min (?K ts)"
      using top_x_scan_Min [of ts h "rmsd_score h (ts ! 0)"] nts pk [OF hd] by (simp only: i2) 
    have p_ok: "pair_ok (fst ?p, snd ?p)"
      using p_in pk by auto
    have "py_lt (fst ?p) (rmsd (objects h x))
            \<or> (fst ?p = rmsd (objects h x) \<and> num_le (snd ?p) (score (objects h x)))"
      if x: "x \<in> set ts" for x
    proof -
      have "pair_key ?p \<le> pair_key (rmsd_score h x)"
        unfolding p_min using x by (intro Min_le) simp_all
      then have "pair_key (fst ?p, snd ?p)
                   \<le> pair_key (rmsd (objects h x), score (objects h x))"
        by (simp add: rmsd_score_def)
      moreover have "pair_ok (rmsd (objects h x), score (objects h x))"
        using pk [OF x] by (simp add: rmsd_score_def)
      ultimately show ?thesis
        using p_ok by (simp only: pair_key_le)
    qed
    then show ?thesis using p_in p_min by blast
  qed
  have "\<exists>st. extract_analysis_data_case fs h s expectn top_x = Inr st
           \<and> loop_predictions (top_x_loop_prediction_set st)
               = take (nat top_x) (population h s expectn)
           \<and> best_scoring_structure st = population h s expectn ! 0
           \<and> worst_scoring_structure st = last (population h s expectn)
           \<and> top_1_rmsd st = rmsd (objects h (best_scoring_structure st))
           \<and> worst_score st = score (objects h (worst_scoring_structure st))
           \<and> (\<exists>lp \<in> set (loop_predictions (top_x_loop_prediction_set st)).
                  rmsd (objects h lp) = top_x_rmsd st \<and> score (objects h lp) = top_x_score st)
           \<and> (\<forall>lp \<in> set (loop_predictions (top_x_loop_prediction_set st)).
                  py_lt (top_x_rmsd st) (rmsd (objects h lp))
                  \<or> (top_x_rmsd st = rmsd (objects h lp)
                      \<and> num_le (top_x_score st) (score (objects h lp))))
           \<and> py_le (top_x_rmsd st) (top_1_rmsd st)
           \<and> num_le (top_x_score st) (worst_score st)
           \<and> loop_predictions (top_x_loop_prediction_set st) ! 0 = best_scoring_structure st"
    using st tset best worst b1 w1 ex all a2 a1 f1
    by (intro exI [of _ st]) (simp only: tset simp_thms)
  then show ?thesis using scan by blast
qed

theorem top_x_best_deviation_witness:
  "well_typed (\<lambda>p. True) benchmark_heap benchmark_set
   \<and> unique_ids benchmark_heap benchmark_set
   \<and> map_agrees benchmark_heap benchmark_set
   \<and> all_have_rmsd benchmark_heap benchmark_set
   \<and> no_nan benchmark_heap benchmark_set
   \<and> map_sum id (\<lambda>st. (loop_predictions (top_x_loop_prediction_set st), top_x_rmsd st,
                        top_x_score st, top_1_rmsd st, worst_score st))
        (extract_analysis_data_case (\<lambda>p. True) benchmark_heap benchmark_set 10 3)
      = Inr ([9, 8, 7], Some (Num (1 / 2)), Num 3, Some (Num 2), Num 10)
   \<and> rmsd (objects benchmark_heap 7) = Some (Num (1 / 2))
   \<and> take 3 (population benchmark_heap benchmark_set 10) = [9, 8, 7]
   \<and> list_all (\<lambda>lp. not_nan (objects benchmark_heap lp)) [9, 8, 7]
   \<and> top_x_scan benchmark_heap [9, 8, 7] (rmsd_score benchmark_heap 9) = (Some (Num (1 / 2)), Num 3)"
proof -
  have wt: "well_typed (\<lambda>p. True) benchmark_heap benchmark_set"
    and u: "unique_ids benchmark_heap benchmark_set"
    and m: "map_agrees benchmark_heap benchmark_set"
    and r: "all_have_rmsd benchmark_heap benchmark_set"
    and nn: "no_nan benchmark_heap benchmark_set"
    by code_simp+
  have v: "map_sum id (\<lambda>st. (loop_predictions (top_x_loop_prediction_set st), top_x_rmsd st,
                        top_x_score st, top_1_rmsd st, worst_score st))
        (extract_analysis_data_case (\<lambda>p. True) benchmark_heap benchmark_set 10 3)
      = Inr ([9, 8, 7], Some (Num (1 / 2)), Num 3, Some (Num 2), Num 10)"
    by code_simp
  have d: "rmsd (objects benchmark_heap 7) = Some (Num (1 / 2))"
    by (simp add: benchmark_defs)
  have sc: "list_all (\<lambda>lp. not_nan (objects benchmark_heap lp)) [9, 8, 7]"
    "top_x_scan benchmark_heap [9, 8, 7] (rmsd_score benchmark_heap 9) = (Some (Num (1 / 2)), Num 3)"
    by code_simp+
  from top_x_best_deviation [OF wt u m r nn, of 3 10] obtain st where
    "extract_analysis_data_case (\<lambda>p. True) benchmark_heap benchmark_set 10 3 = Inr st"
    "loop_predictions (top_x_loop_prediction_set st)
       = take (nat 3) (population benchmark_heap benchmark_set 10)"
    by (auto simp: benchmark_set_def)
  then have "take 3 (population benchmark_heap benchmark_set 10) = [9, 8, 7]"
    using v by simp
  then show ?thesis using wt u m r nn v d sc by simp
qed

text \<open>
  Claim C9 as stated fails on a set with a NaN score. The first record has the score NaN and
  the deviation 1, the second the score 1 and the deviation 2; \<open>expectn\<close> is 2 and \<open>top_x\<close>
  is 1. \<^verbatim>\<open>sort_by_score\<close> leaves the sequence as it is, so the TopX set is the first
  record and the scan returns its pair, deviation 1 and score NaN. The assertion
  \<^verbatim>\<open>top_x_score <= worst_score\<close> compares NaN with 1 and fails.
\<close>

theorem top_x_nan_counterexample:
  "well_typed (\<lambda>p. True) nan_heap' nan_set
   \<and> unique_ids nan_heap' nan_set
   \<and> map_agrees nan_heap' nan_set
   \<and> all_have_rmsd nan_heap' nan_set
   \<and> LoopPredictionSet_sort_by_score (\<lambda>p. True) nan_heap' nan_set = Inr nan_set
   \<and> top_x_scan nan_heap' [0] (rmsd_score nan_heap' 0) = (Some (Num 1), NaN)
   \<and> \<not> num_le NaN (score (objects nan_heap' 1))
   \<and> extract_analysis_data_case (\<lambda>p. True) nan_heap' nan_set 2 1 = Inl AssertionError"
  by code_simp

text \<open>
  Claim C10. In a set of length \<open>L\<close>, an index \<open>i\<close> with \<open>-L \<le> i < 0\<close> returns the record at
  position \<open>L + i\<close> without an error, index \<open>-1\<close> the last record; the error built in
  \<^verbatim>\<open>__getitem__\<close> itself is raised exactly for the indices \<open>j \<ge> L\<close>.
\<close>

theorem getitem_negative_index:
  assumes "- int (length (loop_predictions s)) \<le> i" "i < 0"
  shows "getitem h s (KInt i)
           = Inr (ItemPrediction (loop_predictions s ! nat (int (length (loop_predictions s)) + i)))
         \<and> getitem h s (KInt (- 1)) = Inr (ItemPrediction (last (loop_predictions s)))
         \<and> (\<forall>j. (\<exists>n k. getitem h s (KInt j) = Inl (IndexError (SetContainsOnly n k)))
                  \<longleftrightarrow> j \<ge> int (length (loop_predictions s)))"
proof -
  have ne: "loop_predictions s \<noteq> []" using assms by auto
  have a: "getitem h s (KInt i)
           = Inr (ItemPrediction (loop_predictions s ! nat (int (length (loop_predictions s)) + i)))"
    using assms by (simp add: getitem_def getitem_int_def list_getitem_def Let_def add.commute)
  have "nat (int (length (loop_predictions s)) - 1) = length (loop_predictions s) - 1"
    by simp
  then have b: "getitem h s (KInt (- 1)) = Inr (ItemPrediction (last (loop_predictions s)))"
    using ne by (simp add: getitem_def getitem_int_def list_getitem_def Let_def last_conv_nth)
  have c: "(\<exists>n k. getitem h s (KInt j) = Inl (IndexError (SetContainsOnly n k)))
                  \<longleftrightarrow> j \<ge> int (length (loop_predictions s))" for j
    by (auto simp: getitem_def getitem_int_def list_getitem_def Let_def split: sum.splits if_splits)
  show ?thesis using a b c by blast
qed

theorem getitem_negative_index_witness:
  "getitem example_heap example_set (KInt (- 3)) = Inr (ItemPrediction 1)
   \<and> getitem example_heap example_set (KInt (- 1)) = Inr (ItemPrediction 3)
   \<and> (\<exists>n k. getitem example_heap example_set (KInt 4) = Inl (IndexError (SetContainsOnly n k)))
   \<and> \<not> (\<exists>n k. getitem example_heap example_set (KInt (- 5)) = Inl (IndexError (SetContainsOnly n k)))"
  using getitem_negative_index [of example_set "- 3" example_heap]
  by (simp add: example_set_def getitem_def getitem_int_def list_getitem_def)

end
